theory Spec2Isabelle
  imports Complex_Main
begin

section \<open>Numbers and small helpers\<close>

text \<open>
  The repository is a JavaScript program. Its numbers are modelled as reals (positions,
  times, sample values) and as integers where the code only ever stores integers
  (the CC number, the last CC value sent). Rounding errors of IEEE doubles, NaN and
  the infinities are outside the model: where the source would compute with
  \<open>undefined\<close> (an array read outside the array) the model returns \<open>None\<close>.

  Record fields whose source name is a single letter (\<open>x\<close>, \<open>y\<close>, \<open>w\<close>, \<open>h\<close>,
  \<open>u\<close>, \<open>v\<close>) carry a prefix, since a one-letter constant would capture the variables
  of every later statement; fields that occur in two classes carry the class prefix.
\<close>

type_synonym addr = nat

definition clamp :: "real \<Rightarrow> real \<Rightarrow> real \<Rightarrow> real" where
  \<comment> \<open>utils/geometry.js: \<open>Math.min(Math.max(value, min), max)\<close>\<close>
  "clamp val lo hi = min (max val lo) hi"

definition mathRound :: "real \<Rightarrow> int" where
  \<comment> \<open>\<open>Math.round\<close>: the nearest integer, halves rounded up\<close>
  "mathRound r = \<lfloor>r + 1 / 2\<rfloor>"

definition PIXELS_PER_SECOND :: real where
  "PIXELS_PER_SECOND = 100"

definition BOX_W :: real where
  "BOX_W = 200"

definition BOX_H :: real where
  "BOX_H = 80"

definition sampleAt :: "real list \<Rightarrow> int \<Rightarrow> real option" where
  \<comment> \<open>\<open>samples[i]\<close>: \<open>undefined\<close> outside the array\<close>
  "sampleAt xs i = (if 0 \<le> i \<and> i < int (length xs) then Some (xs ! nat i) else None)"

section \<open>Triggers\<close>

record VTrigger =
  vt_u :: real
  outputPortTriggered :: bool
  vt_flashEndTime :: real
  inputPortHovered :: bool
  vt_connectedPortType :: "string option"
  portInput :: addr
  portOutput :: addr

record HTrigger =
  ht_v :: real
  lastValue :: "real option"
  upPortTriggered :: bool
  upFlashEndTime :: real
  downPortTriggered :: bool
  downFlashEndTime :: real
  ht_connectedPortType :: "string option"
  portUp :: addr
  portDown :: addr

record Crossing =
  cr_type :: string
  threshold :: real
  fromValue :: real
  toValue :: real

definition VTrigger_new :: "real \<Rightarrow> addr \<Rightarrow> addr \<Rightarrow> VTrigger" where
  \<comment> \<open>the constructor; the two addresses are those of the Port objects it creates\<close>
  "VTrigger_new uNorm pIn pOut =
     \<lparr>vt_u = clamp uNorm 0 1, outputPortTriggered = False, vt_flashEndTime = 0,
      inputPortHovered = False, vt_connectedPortType = None,
      portInput = pIn, portOutput = pOut\<rparr>"

definition HTrigger_new :: "real \<Rightarrow> addr \<Rightarrow> addr \<Rightarrow> HTrigger" where
  "HTrigger_new vNorm pUp pDown =
     \<lparr>ht_v = clamp vNorm 0 1, lastValue = None, upPortTriggered = False,
      upFlashEndTime = 0, downPortTriggered = False, downFlashEndTime = 0,
      ht_connectedPortType = None, portUp = pUp, portDown = pDown\<rparr>"

definition getThresholdLevel :: "HTrigger \<Rightarrow> real" where
  "getThresholdLevel t = 1 - ht_v t"

definition checkCrossing :: "real \<Rightarrow> HTrigger \<Rightarrow> Crossing option \<times> HTrigger" where
  "checkCrossing currentValue t =
     (case lastValue t of
        None \<Rightarrow> (None, t\<lparr>lastValue := Some currentValue\<rparr>)
      | Some prev \<Rightarrow>
          (let thr = getThresholdLevel t;
               curr = currentValue;
               crossingType =
                 (if prev < thr \<and> curr \<ge> thr then Some ''up''
                  else if prev > thr \<and> curr \<le> thr then Some ''down''
                  else None);
               t' = t\<lparr>lastValue := Some currentValue\<rparr>
           in case crossingType of
                Some ty \<Rightarrow>
                  (Some \<lparr>cr_type = ty, threshold = thr, fromValue = prev, toValue = curr\<rparr>, t')
              | None \<Rightarrow> (None, t')))"

definition resetCrossingState :: "HTrigger \<Rightarrow> HTrigger" where
  "resetCrossingState t = t\<lparr>lastValue := None\<rparr>"

definition VTrigger_fireFlags :: "real \<Rightarrow> VTrigger \<Rightarrow> VTrigger" where
  \<comment> \<open>the part of \<open>fireOutputPort\<close> that writes the trigger itself\<close>
  "VTrigger_fireFlags now t = t\<lparr>outputPortTriggered := True, vt_flashEndTime := now + 220\<rparr>"

definition HTrigger_fireUpFlags :: "real \<Rightarrow> HTrigger \<Rightarrow> HTrigger" where
  "HTrigger_fireUpFlags now t = t\<lparr>upPortTriggered := True, upFlashEndTime := now + 220\<rparr>"

definition HTrigger_fireDownFlags :: "real \<Rightarrow> HTrigger \<Rightarrow> HTrigger" where
  "HTrigger_fireDownFlags now t = t\<lparr>downPortTriggered := True, downFlashEndTime := now + 220\<rparr>"

definition VTrigger_updatePortState :: "real \<Rightarrow> VTrigger \<Rightarrow> VTrigger" where
  "VTrigger_updatePortState now t =
     (if outputPortTriggered t \<and> now \<ge> vt_flashEndTime t
      then t\<lparr>outputPortTriggered := False\<rparr> else t)"

definition HTrigger_updatePortState :: "real \<Rightarrow> HTrigger \<Rightarrow> HTrigger" where
  "HTrigger_updatePortState now t =
     (let t1 = (if upPortTriggered t \<and> now \<ge> upFlashEndTime t
                then t\<lparr>upPortTriggered := False\<rparr> else t)
      in if downPortTriggered t1 \<and> now \<ge> downFlashEndTime t1
         then t1\<lparr>downPortTriggered := False\<rparr> else t1)"

section \<open>Nodes\<close>

record Node =
  n_x :: real
  n_y :: real
  n_w :: real
  n_h :: real
  label :: string
  playing :: bool
  playStartTime :: real
  samples :: "real list"
  cc :: int
  sourceDeviceName :: string
  playProgress :: real
  lastCCSent :: int
  durationMs :: real
  startProgress :: real
  remainingDurationMs :: real
  playheadX :: real
  vTriggers :: "VTrigger list"
  hTriggers :: "HTrigger list"
  vTriggersHitThisPlayback :: "nat set"

definition computeRunDuration :: "real \<Rightarrow> real" where
  \<comment> \<open>\<open>_computeRunDuration\<close>, as a function of the node's width\<close>
  "computeRunDuration width = max 1 (width / PIXELS_PER_SECOND * 1000)"

definition WaveformNode_new :: "real \<Rightarrow> real \<Rightarrow> string \<Rightarrow> real list \<Rightarrow> real \<Rightarrow> int \<Rightarrow> Node" where
  \<comment> \<open>The constructor, called with a samples array (the default sine only replaces
      \<open>null\<close>). \<open>if (width) this.w = width\<close>: a width of 0 keeps \<open>BOX_W\<close>. The last
      argument is the CC number: the constructor parses one from the label, and
      every caller modelled here overwrites it in the next statement.\<close>
  "WaveformNode_new px py lbl smp width ccNum =
     (let wd = (if width \<noteq> 0 then width else BOX_W)
      in \<lparr>n_x = px, n_y = py, n_w = wd, n_h = BOX_H, label = lbl,
          playing = False, playStartTime = 0, samples = smp, cc = ccNum,
          sourceDeviceName = [], playProgress = 0, lastCCSent = -1,
          durationMs = computeRunDuration wd, startProgress = 0,
          remainingDurationMs = computeRunDuration wd, playheadX = 0,
          vTriggers = [], hTriggers = [], vTriggersHitThisPlayback = {}\<rparr>)"

definition Node_startPlayback :: "real \<Rightarrow> Node \<Rightarrow> Node" where
  \<comment> \<open>the base class \<open>Node.startPlayback\<close>; \<open>now\<close> is \<open>performance.now()\<close>\<close>
  "Node_startPlayback now n =
     (if playing n then n else n\<lparr>playing := True, playStartTime := now\<rparr>)"

definition stopPlayback :: "Node \<Rightarrow> Node" where
  "stopPlayback n =
     (if \<not> playing n then n else n\<lparr>playing := False, playStartTime := 0\<rparr>)"

definition startPlayback :: "real \<Rightarrow> Node \<Rightarrow> Node" where
  \<comment> \<open>\<open>WaveformNode.startPlayback\<close>\<close>
  "startPlayback now n =
     (if playing n then n
      else (let n1 = Node_startPlayback now n
            in n1\<lparr>playProgress := 0, startProgress := 0,
                  remainingDurationMs := durationMs n1, lastCCSent := -1,
                  vTriggersHitThisPlayback := {},
                  hTriggers := map resetCrossingState (hTriggers n1)\<rparr>))"

definition markHitBefore :: "real \<Rightarrow> VTrigger list \<Rightarrow> nat set" where
  \<comment> \<open>the loop of \<open>startPlaybackFromU\<close> over the indices, from the cleared set\<close>
  "markHitBefore normalizedU ts =
     fold (\<lambda>i s. if vt_u (ts ! i) \<le> normalizedU then insert i s else s) [0..<length ts] {}"

definition startPlaybackFromU :: "real \<Rightarrow> real \<Rightarrow> Node \<Rightarrow> Node" where
  "startPlaybackFromU now uu n =
     (let n0 = (if playing n then stopPlayback n else n);
          normalizedU = clamp uu 0 1;
          n1 = Node_startPlayback now n0
      in n1\<lparr>playProgress := normalizedU, startProgress := normalizedU,
            remainingDurationMs := max 1 ((1 - normalizedU) * durationMs n1),
            lastCCSent := -1,
            vTriggersHitThisPlayback := markHitBefore normalizedU (vTriggers n1),
            hTriggers := map resetCrossingState (hTriggers n1)\<rparr>)"

definition valueAt :: "real \<Rightarrow> Node \<Rightarrow> real option" where
  \<comment> \<open>\<open>None\<close>: one of the two array reads was outside the array\<close>
  "valueAt t n =
     (let normalizedT = clamp t 0 1;
          len = int (length (samples n));
          pos = normalizedT * of_int (len - 1);
          i = \<lfloor>pos\<rfloor>;
          f = pos - of_int i
      in case (sampleAt (samples n) i, sampleAt (samples n) (min (i + 1) (len - 1))) of
           (Some a, Some b) \<Rightarrow> Some (a + (b - a) * f)
         | _ \<Rightarrow> None)"

definition getCurrentValue :: "Node \<Rightarrow> real option" where
  "getCurrentValue n = valueAt (playProgress n) n"

section \<open>The per-frame update of a node\<close>

text \<open>
  \<open>_updateTriggerPorts\<close> calls \<open>fireOutputPort\<close>, \<open>fireUpPort\<close> and \<open>fireDownPort\<close>
  on the node's own triggers. Each of them writes the trigger's flash flags and then
  hands the event to the connections of the application. In the node's update the
  flags are written in place and the event is appended to the list the update
  returns, in firing order; what a connection does with an event is
  \<open>propagateFireEvent\<close> below. One reading of \<open>performance.now()\<close> stands for all
  the readings within one frame.
\<close>

datatype fire_event = VOutputFired nat | HUpFired nat | HDownFired nat

definition vTriggerStep :: "real \<Rightarrow> nat \<Rightarrow> Node \<times> fire_event list \<Rightarrow> Node \<times> fire_event list" where
  \<comment> \<open>the body of the first loop of \<open>_updateTriggerPorts\<close>, at index \<open>i\<close>\<close>
  "vTriggerStep now i = (\<lambda>(n, ev).
     let trigger = vTriggers n ! i
     in if playProgress n \<ge> vt_u trigger then
          (let wasAlreadyFiredThisFrame = (i \<in> vTriggersHitThisPlayback n)
           in if \<not> wasAlreadyFiredThisFrame then
                (n\<lparr>vTriggers := (vTriggers n)[i := VTrigger_fireFlags now trigger],
                   vTriggersHitThisPlayback := insert i (vTriggersHitThisPlayback n)\<rparr>,
                 ev @ [VOutputFired i])
              else (n, ev))
        else (n\<lparr>vTriggersHitThisPlayback := vTriggersHitThisPlayback n - {i}\<rparr>, ev))"

definition hTriggerStep :: "real \<Rightarrow> real \<Rightarrow> nat \<Rightarrow> Node \<times> fire_event list \<Rightarrow> Node \<times> fire_event list" where
  \<comment> \<open>the body of the second loop, at the \<open>j\<close>-th horizontal trigger\<close>
  "hTriggerStep now currentValue j = (\<lambda>(n, ev).
     case checkCrossing currentValue (hTriggers n ! j) of
       (None, t1) \<Rightarrow> (n\<lparr>hTriggers := (hTriggers n)[j := t1]\<rparr>, ev)
     | (Some crossing, t1) \<Rightarrow>
         if cr_type crossing = ''up'' then
           (n\<lparr>hTriggers := (hTriggers n)[j := HTrigger_fireUpFlags now t1]\<rparr>,
            ev @ [HUpFired j])
         else if cr_type crossing = ''down'' then
           (n\<lparr>hTriggers := (hTriggers n)[j := HTrigger_fireDownFlags now t1]\<rparr>,
            ev @ [HDownFired j])
         else (n\<lparr>hTriggers := (hTriggers n)[j := t1]\<rparr>, ev))"

definition updateTriggerPorts :: "real \<Rightarrow> Node \<Rightarrow> (Node \<times> fire_event list) option" where
  \<comment> \<open>\<open>_updateTriggerPorts\<close>; \<open>None\<close> when the current value is not a number\<close>
  "updateTriggerPorts now n =
     (if \<not> playing n then Some (n, [])
      else (case fold (vTriggerStep now) [0..<length (vTriggers n)] (n, []) of
              (n1, ev1) \<Rightarrow>
                (case getCurrentValue n1 of
                   None \<Rightarrow> None
                 | Some currentValue \<Rightarrow>
                     Some (fold (hTriggerStep now currentValue)
                             [0..<length (hTriggers n1)] (n1, ev1)))))"

definition updatePortStates :: "real \<Rightarrow> Node \<Rightarrow> Node" where
  "updatePortStates now n =
     n\<lparr>vTriggers := map (VTrigger_updatePortState now) (vTriggers n),
       hTriggers := map (HTrigger_updatePortState now) (hTriggers n)\<rparr>"

definition progressAt :: "Node \<Rightarrow> real \<Rightarrow> real" where
  \<comment> \<open>the progress \<open>update\<close> computes at time \<open>now\<close>\<close>
  "progressAt n now =
     (let elapsed = now - playStartTime n;
          segmentProgress = clamp (elapsed / remainingDurationMs n) 0 1
      in clamp (startProgress n + segmentProgress * (1 - startProgress n)) 0 1)"

definition update :: "real \<Rightarrow> Node \<Rightarrow> (Node \<times> fire_event list) option" where
  \<comment> \<open>\<open>WaveformNode.update\<close>, with the time of the frame as argument\<close>
  "update now n =
     (if \<not> playing n then Some (updatePortStates now n, [])
      else (let n1 = n\<lparr>playProgress := progressAt n now\<rparr>;
                n2 = n1\<lparr>playheadX := n_x n1 + n_w n1 * playProgress n1\<rparr>
            in case updateTriggerPorts now n2 of
                 None \<Rightarrow> None
               | Some (n3, ev) \<Rightarrow>
                   (let n4 = updatePortStates now n3
                    in Some (if playProgress n4 \<ge> 1 then stopPlayback n4 else n4, ev))))"


section \<open>Auxiliary notions for the proofs\<close>


definition nodeData :: "Node \<Rightarrow> real \<times> real \<times> real \<times> real \<times> string \<times> real list \<times> int \<times> string" where
  \<comment> \<open>what a node carries apart from its playback state and its triggers\<close>
  "nodeData n = (n_x n, n_y n, n_w n, n_h n, label n, samples n, cc n, sourceDeviceName n)"

definition vTriggerPorts :: "Node \<Rightarrow> addr list" where
  \<comment> \<open>the Port objects of the vertical triggers of a node, in order\<close>
  "vTriggerPorts n = concat (map (\<lambda>t. [portInput t, portOutput t]) (vTriggers n))"

definition hTriggerPorts :: "Node \<Rightarrow> addr list" where
  "hTriggerPorts n = concat (map (\<lambda>t. [portUp t, portDown t]) (hTriggers n))"

definition splitLeftNode :: "Node \<Rightarrow> real \<Rightarrow> real list \<Rightarrow> Node" where
  \<comment> \<open>the left node as \<open>splitAtU\<close> constructs it, before the triggers are distributed\<close>
  "splitLeftNode this nu leftSamples =
     (WaveformNode_new (n_x this) (n_y this) (label this) leftSamples
        (max 2 (of_int (mathRound (n_w this * nu)))) (cc this))
     \<lparr>sourceDeviceName := sourceDeviceName this\<rparr>"

definition splitRightNode :: "Node \<Rightarrow> real \<Rightarrow> real list \<Rightarrow> Node" where
  "splitRightNode this nu rightSamples =
     (WaveformNode_new (n_x this + max 2 (of_int (mathRound (n_w this * nu)))) (n_y this)
        (label this) rightSamples
        (max 2 (n_w this - max 2 (of_int (mathRound (n_w this * nu))))) (cc this))
     \<lparr>sourceDeviceName := sourceDeviceName this\<rparr>"

section \<open>Ports, connections and the application state\<close>

text \<open>
  Nodes and Port objects live in a store indexed by addresses; \<open>nextNode\<close> and
  \<open>nextPort\<close> are the next free addresses, so that \<open>new\<close> yields an object that
  nothing refers to yet. A node owns its triggers, which are stored in the node by
  value; a reference to a trigger is the address of its node and its index in the
  node's list. A connection holds two object references: Port objects, or (the
  legacy case of the source) the trigger objects themselves.
\<close>

datatype trigger_ref = VTriggerRef addr nat | HTriggerRef addr nat

fun trigger_node :: "trigger_ref \<Rightarrow> addr" where
  "trigger_node (VTriggerRef a i) = a"
| "trigger_node (HTriggerRef a j) = a"

fun trigger_index :: "trigger_ref \<Rightarrow> nat" where
  "trigger_index (VTriggerRef a i) = i"
| "trigger_index (HTriggerRef a j) = j"

fun is_VTrigger :: "trigger_ref \<Rightarrow> bool" where
  "is_VTrigger (VTriggerRef a i) = True"
| "is_VTrigger (HTriggerRef a j) = False"

record Port =
  p_trigger :: trigger_ref
  p_type :: string
  p_role :: string
  p_isHovered :: bool
  isTriggered :: bool
  p_flashEndTime :: real
  p_connectedPortType :: "string option"

definition Port_new :: "trigger_ref \<Rightarrow> string \<Rightarrow> string \<Rightarrow> Port" where
  "Port_new trig ty rl =
     \<lparr>p_trigger = trig, p_type = ty, p_role = rl, p_isHovered = False,
      isTriggered = False, p_flashEndTime = 0, p_connectedPortType = None\<rparr>"

definition blink :: "real \<Rightarrow> Port \<Rightarrow> Port" where
  "blink now p = p\<lparr>isTriggered := True, p_flashEndTime := now + 220\<rparr>"

datatype endpoint = PortObj addr | VTriggerObj addr nat | HTriggerObj addr nat

record Connection =
  portA :: "endpoint option"
  portB :: "endpoint option"
  c_isHovered :: bool

record World =
  nodes :: "addr \<Rightarrow> Node"
  ports :: "addr \<Rightarrow> Port"
  nextNode :: addr
  nextPort :: addr
  connections :: "Connection list"

fun endpointRole :: "World \<Rightarrow> endpoint \<Rightarrow> string option" where
  \<comment> \<open>\<open>port.role\<close>: only Port objects have the field\<close>
  "endpointRole w (PortObj p) = Some (p_role (ports w p))"
| "endpointRole w (VTriggerObj a i) = None"
| "endpointRole w (HTriggerObj a j) = None"

fun endpointType :: "World \<Rightarrow> endpoint \<Rightarrow> string" where
  \<comment> \<open>\<open>port.type\<close>\<close>
  "endpointType w (PortObj p) = p_type (ports w p)"
| "endpointType w (VTriggerObj a i) = ''vertical''"
| "endpointType w (HTriggerObj a j) = ''horizontal''"

fun endpointConnectedPortType :: "World \<Rightarrow> endpoint \<Rightarrow> string option" where
  \<comment> \<open>\<open>port._connectedPortType\<close>\<close>
  "endpointConnectedPortType w (PortObj p) = p_connectedPortType (ports w p)"
| "endpointConnectedPortType w (VTriggerObj a i) =
     vt_connectedPortType (vTriggers (nodes w a) ! i)"
| "endpointConnectedPortType w (HTriggerObj a j) =
     ht_connectedPortType (hTriggers (nodes w a) ! j)"

fun endpointNode :: "World \<Rightarrow> endpoint \<Rightarrow> addr" where
  \<comment> \<open>\<open>port.node\<close>; for a Port object the getter \<open>this.trigger.node\<close>\<close>
  "endpointNode w (PortObj p) = trigger_node (p_trigger (ports w p))"
| "endpointNode w (VTriggerObj a i) = a"
| "endpointNode w (HTriggerObj a j) = a"

definition getPortRole :: "World \<Rightarrow> endpoint \<Rightarrow> string" where
  \<comment> \<open>\<open>_getPortRole\<close>; \<open>if (port.role)\<close> holds for a non-empty string\<close>
  "getPortRole w port =
     (if endpointRole w port \<noteq> None \<and> endpointRole w port \<noteq> Some []
      then the (endpointRole w port)
      else if endpointType w port = ''input'' then ''in''
      else if endpointType w port = ''output'' then ''out''
      else if endpointType w port = ''up'' \<or> endpointType w port = ''down'' then ''out''
      else if endpointConnectedPortType w port = Some ''input'' then ''in''
      else if endpointConnectedPortType w port = Some ''output'' then ''out''
      else if endpointConnectedPortType w port = Some ''up'' \<or>
              endpointConnectedPortType w port = Some ''down'' then ''out''
      else ''unknown'')"

definition isValidConnection :: "World \<Rightarrow> Connection \<Rightarrow> bool" where
  \<comment> \<open>\<open>_isValidConnection\<close>\<close>
  "isValidConnection w c =
     (case (portA c, portB c) of
        (Some a, Some b) \<Rightarrow>
          if a = b then False
          else (let roleA = getPortRole w a; roleB = getPortRole w b
                in (roleA = ''in'' \<and> roleB = ''out'') \<or> (roleA = ''out'' \<and> roleB = ''in''))
      | _ \<Rightarrow> False)"

definition Connection_new :: "World \<Rightarrow> endpoint option \<Rightarrow> endpoint option \<Rightarrow> Connection \<times> string list" where
  \<comment> \<open>the constructor: the new connection and what it writes with \<open>console.warn\<close>\<close>
  "Connection_new w pA pB =
     (let c = \<lparr>portA = pA, portB = pB, c_isHovered = False\<rparr>
      in (c, if \<not> isValidConnection w c then [''Invalid connection attempted:''] else []))"

definition getOtherPort :: "Connection \<Rightarrow> endpoint \<Rightarrow> endpoint option" where
  "getOtherPort c port =
     (if Some port = portA c then portB c
      else if Some port = portB c then portA c
      else None)"

definition hasNode :: "World \<Rightarrow> Connection \<Rightarrow> addr \<Rightarrow> bool" where
  "hasNode w c node =
     ((case portA c of None \<Rightarrow> False | Some a \<Rightarrow> endpointNode w a = node) \<or>
      (case portB c of None \<Rightarrow> False | Some b \<Rightarrow> endpointNode w b = node))"

definition wellFormed :: "World \<Rightarrow> bool" where
  \<comment> \<open>every endpoint of a connection is an object that has been created: its node,
      and the Port object when it is one\<close>
  "wellFormed w \<longleftrightarrow>
     (\<forall>c \<in> set (connections w). \<forall>e. portA c = Some e \<or> portB c = Some e \<longrightarrow>
        endpointNode w e < nextNode w \<and> (\<forall>p. e = PortObj p \<longrightarrow> p < nextPort w))"

definition updNode :: "addr \<Rightarrow> (Node \<Rightarrow> Node) \<Rightarrow> World \<Rightarrow> World" where
  \<comment> \<open>a method of the node at the address, run in the store\<close>
  "updNode a f w = w\<lparr>nodes := (nodes w)(a := f (nodes w a))\<rparr>"

definition triggerInputPort :: "real \<Rightarrow> addr \<Rightarrow> nat \<Rightarrow> World \<Rightarrow> World" where
  \<comment> \<open>\<open>VTrigger.triggerInputPort\<close>: \<open>this.node.startPlaybackFromU(this.u)\<close>\<close>
  "triggerInputPort now a i w =
     updNode a (\<lambda>n. startPlaybackFromU now (vt_u (vTriggers n ! i)) n) w"

definition setInputPortHovered :: "addr \<Rightarrow> nat \<Rightarrow> bool \<Rightarrow> World \<Rightarrow> World" where
  "setInputPortHovered a i hov w =
     updNode a (\<lambda>n. n\<lparr>vTriggers := (vTriggers n)[i := (vTriggers n ! i)\<lparr>inputPortHovered := hov\<rparr>]\<rparr>) w"

text \<open>
  Firing is recursive through the connections, and the source has no guard against
  cycles. The methods below take the meaning of a nested call of
  \<open>connection.propagateFireEvent\<close> as their first argument \<open>nested\<close>;
  \<open>propagateFireEventFuel\<close> closes the recursion with fuel, the number of nested
  calls of \<open>propagateFireEvent\<close> still allowed, and \<open>None\<close> means that the fuel ran
  out. The loops over \<open>app.connections\<close> are folds that stop at the first \<open>None\<close>.
  The timer that resets the hover flag of a legacy target 100 ms later is a later
  task and not part of the call.
\<close>

type_synonym propagation =
  "Connection \<Rightarrow> endpoint \<Rightarrow> string option \<Rightarrow> World \<Rightarrow> World option"

definition propagateThroughConnections ::
  "propagation \<Rightarrow> endpoint \<Rightarrow> string \<Rightarrow> World \<Rightarrow> World option" where
  \<comment> \<open>\<open>_propagateOutputTrigger\<close>, \<open>_propagateUpTrigger\<close>, \<open>_propagateDownTrigger\<close>:
      the loop over \<open>app.connections\<close> for the port \<open>me\<close> of the firing trigger\<close>
  "propagateThroughConnections nested me ty w =
     fold (\<lambda>c r. case r of
              None \<Rightarrow> None
            | Some w' \<Rightarrow>
                if portA c = Some me then nested c me (Some ty) w'
                else if portB c = Some me then nested c me (Some ty) w'
                else Some w')
          (connections w) (Some w)"

definition fireOutputPort :: "propagation \<Rightarrow> real \<Rightarrow> addr \<Rightarrow> nat \<Rightarrow> World \<Rightarrow> World option" where
  \<comment> \<open>\<open>VTrigger.fireOutputPort\<close> of the \<open>i\<close>-th vertical trigger of the node at \<open>a\<close>\<close>
  "fireOutputPort nested now a i w =
     (let w1 = updNode a (\<lambda>n. n\<lparr>vTriggers :=
                 (vTriggers n)[i := VTrigger_fireFlags now (vTriggers n ! i)]\<rparr>) w
      in propagateThroughConnections nested
           (PortObj (portOutput (vTriggers (nodes w1 a) ! i))) ''output'' w1)"

definition fireUpPort :: "propagation \<Rightarrow> real \<Rightarrow> addr \<Rightarrow> nat \<Rightarrow> World \<Rightarrow> World option" where
  "fireUpPort nested now a j w =
     (let w1 = updNode a (\<lambda>n. n\<lparr>hTriggers :=
                 (hTriggers n)[j := HTrigger_fireUpFlags now (hTriggers n ! j)]\<rparr>) w
      in propagateThroughConnections nested
           (PortObj (portUp (hTriggers (nodes w1 a) ! j))) ''up'' w1)"

definition fireDownPort :: "propagation \<Rightarrow> real \<Rightarrow> addr \<Rightarrow> nat \<Rightarrow> World \<Rightarrow> World option" where
  "fireDownPort nested now a j w =
     (let w1 = updNode a (\<lambda>n. n\<lparr>hTriggers :=
                 (hTriggers n)[j := HTrigger_fireDownFlags now (hTriggers n ! j)]\<rparr>) w
      in propagateThroughConnections nested
           (PortObj (portDown (hTriggers (nodes w1 a) ! j))) ''down'' w1)"

definition Port_fire :: "propagation \<Rightarrow> real \<Rightarrow> addr \<Rightarrow> World \<Rightarrow> World option" where
  \<comment> \<open>\<open>Port.fire\<close>; a method such as \<open>this.trigger.fireUpPort\<close> exists on the one
      kind of trigger only\<close>
  "Port_fire nested now p w =
     (let w1 = w\<lparr>ports := (ports w)(p := blink now (ports w p))\<rparr>;
          ty = p_type (ports w1 p);
          trig = p_trigger (ports w1 p)
      in if ty = ''up'' \<and> \<not> is_VTrigger trig
           then fireUpPort nested now (trigger_node trig) (trigger_index trig) w1
         else if ty = ''down'' \<and> \<not> is_VTrigger trig
           then fireDownPort nested now (trigger_node trig) (trigger_index trig) w1
         else if ty = ''input'' \<and> is_VTrigger trig
           then Some (triggerInputPort now (trigger_node trig) (trigger_index trig) w1)
         else if ty = ''output'' \<and> is_VTrigger trig
           then fireOutputPort nested now (trigger_node trig) (trigger_index trig) w1
         else Some w1)"

definition propagateFireEvent ::
  "propagation \<Rightarrow> real \<Rightarrow> Connection \<Rightarrow> endpoint \<Rightarrow> string option \<Rightarrow> World \<Rightarrow> World option" where
  \<comment> \<open>\<open>Connection.propagateFireEvent(sourcePort, sourcePortType)\<close>\<close>
  "propagateFireEvent nested now c sourcePort sourcePortType w =
     (let sourceRole = getPortRole w sourcePort
      in if sourceRole \<noteq> ''out'' then Some w
         else (case getOtherPort c sourcePort of
                 None \<Rightarrow> Some w
               | Some targetPort \<Rightarrow>
                   (let targetRole = getPortRole w targetPort
                    in if targetRole \<noteq> ''in'' then Some w
                       else (case targetPort of
                               PortObj p \<Rightarrow> Port_fire nested now p w
                             | VTriggerObj a i \<Rightarrow>
                                 (let targetPortType =
                                        vt_connectedPortType (vTriggers (nodes w a) ! i);
                                      r = (if targetPortType = Some ''input''
                                             then Some (triggerInputPort now a i w)
                                           else if targetPortType = Some ''output''
                                             then fireOutputPort nested now a i w
                                           else Some (triggerInputPort now a i w))
                                  in map_option (setInputPortHovered a i True) r)
                             | HTriggerObj a j \<Rightarrow>
                                 (let targetPortType =
                                        ht_connectedPortType (hTriggers (nodes w a) ! j)
                                  in if targetPortType = Some ''up''
                                       then fireUpPort nested now a j w
                                     else if targetPortType = Some ''down''
                                       then fireDownPort nested now a j w
                                     else if sourcePortType = Some ''up''
                                       then fireUpPort nested now a j w
                                     else if sourcePortType = Some ''down''
                                       then fireDownPort nested now a j w
                                     else Some (updNode a (startPlayback now) w))))))"

primrec propagateFireEventFuel :: "nat \<Rightarrow> real \<Rightarrow> propagation" where
  "propagateFireEventFuel 0 now = (\<lambda>c sourcePort sourcePortType w. None)"
| "propagateFireEventFuel (Suc k) now =
     propagateFireEvent (propagateFireEventFuel k now) now"

section \<open>Creating objects: duplicate and split\<close>

definition allocNode :: "Node \<Rightarrow> World \<Rightarrow> addr \<times> World" where
  \<comment> \<open>\<open>new WaveformNode(...)\<close>: the constructed node at the next free address\<close>
  "allocNode n w =
     (nextNode w, w\<lparr>nodes := (nodes w)(nextNode w := n), nextNode := Suc (nextNode w)\<rparr>)"

definition pushNewVTrigger :: "addr \<Rightarrow> real \<Rightarrow> World \<Rightarrow> VTrigger \<times> World" where
  \<comment> \<open>\<open>t = new VTrigger(node, u); node.vTriggers.push(t)\<close>, with the two Port
      objects the constructor creates\<close>
  "pushNewVTrigger a uNorm w =
     (let i = length (vTriggers (nodes w a));
          pIn = nextPort w;
          pOut = Suc (nextPort w);
          t = VTrigger_new uNorm pIn pOut
      in (t, w\<lparr>ports := (ports w)(pIn := Port_new (VTriggerRef a i) ''input'' ''in'',
                                   pOut := Port_new (VTriggerRef a i) ''output'' ''out''),
               nextPort := Suc (Suc (nextPort w)),
               nodes := (nodes w)(a := (nodes w a)\<lparr>vTriggers := vTriggers (nodes w a) @ [t]\<rparr>)\<rparr>))"

definition pushNewHTrigger :: "addr \<Rightarrow> real \<Rightarrow> World \<Rightarrow> HTrigger \<times> World" where
  "pushNewHTrigger a vNorm w =
     (let j = length (hTriggers (nodes w a));
          pUp = nextPort w;
          pDown = Suc (nextPort w);
          t = HTrigger_new vNorm pUp pDown
      in (t, w\<lparr>ports := (ports w)(pUp := Port_new (HTriggerRef a j) ''up'' ''out'',
                                   pDown := Port_new (HTriggerRef a j) ''down'' ''out''),
               nextPort := Suc (Suc (nextPort w)),
               nodes := (nodes w)(a := (nodes w a)\<lparr>hTriggers := hTriggers (nodes w a) @ [t]\<rparr>)\<rparr>))"

text \<open>
  \<open>_createNodeDuplicate\<close> builds the copy of the node at once and copies the triggers
  in the callbacks of two dynamic imports, which run after the method has returned.
  \<open>createNodeDuplicate_sync\<close> is the state at the return, \<open>copyVTriggers\<close> and
  \<open>copyHTriggers\<close> are the two callbacks, and \<open>createNodeDuplicate\<close> is the state
  once both imports have been fulfilled.
\<close>

definition createNodeDuplicate_sync :: "addr \<Rightarrow> World \<Rightarrow> addr \<times> World" where
  "createNodeDuplicate_sync a w =
     (let node = nodes w a;
          clonedSamples = samples node;
          duplicate = (WaveformNode_new (n_x node + 12) (n_y node + 12) (label node)
                         clonedSamples (n_w node) (cc node))
                      \<lparr>sourceDeviceName := sourceDeviceName node\<rparr>
      in allocNode duplicate w)"

definition copyVTriggers :: "addr \<Rightarrow> addr \<Rightarrow> World \<Rightarrow> World" where
  "copyVTriggers a d w =
     fold (\<lambda>vTrigger w'. snd (pushNewVTrigger d (vt_u vTrigger) w')) (vTriggers (nodes w a)) w"

definition copyHTriggers :: "addr \<Rightarrow> addr \<Rightarrow> World \<Rightarrow> World" where
  "copyHTriggers a d w =
     fold (\<lambda>hTrigger w'. snd (pushNewHTrigger d (ht_v hTrigger) w')) (hTriggers (nodes w a)) w"

definition createNodeDuplicate :: "addr \<Rightarrow> World \<Rightarrow> addr \<times> World" where
  "createNodeDuplicate a w =
     (case createNodeDuplicate_sync a w of
        (d, w1) \<Rightarrow> (d, copyHTriggers a d (copyVTriggers a d w1)))"

datatype mapped_port = OnePort addr | PortArray "addr list"

record SplitResult =
  leftNode :: addr
  rightNode :: addr
  portMap :: "addr \<rightharpoonup> mapped_port"
  splitU :: real

datatype split_outcome = SplitNull | SplitNaN | SplitOk SplitResult World

definition splitSamplesAtU :: "real \<Rightarrow> Node \<Rightarrow> (real list \<times> real list) option" where
  \<comment> \<open>\<open>_splitSamplesAtU\<close>; \<open>None\<close> when a read for the split value is outside the
      array. The indices are not negative, so \<open>slice(0, i + 1)\<close> and \<open>slice(j)\<close> are
      \<open>take\<close> and \<open>drop\<close>.\<close>
  "splitSamplesAtU uu nd =
     (let n = max 2 (int (length (samples nd)));
          pos = clamp uu 0 1 * of_int (n - 1);
          i = \<lfloor>pos\<rfloor>;
          j = min (i + 1) (n - 1);
          f = pos - of_int i
      in case (sampleAt (samples nd) i, sampleAt (samples nd) j) of
           (Some si, Some sj) \<Rightarrow>
             (let vSplit = si + (sj - si) * f;
                  left0 = take (nat (i + 1)) (samples nd) @ [vSplit];
                  right0 = vSplit # drop (nat j) (samples nd);
                  left = (if length left0 < 2 then left0 @ [last left0] else left0);
                  right = (if length right0 < 2 then hd right0 # right0 else right0)
              in Some (left, right))
         | _ \<Rightarrow> None)"

definition distributeVTrigger ::
  "real \<Rightarrow> addr \<Rightarrow> addr \<Rightarrow> VTrigger \<Rightarrow> World \<times> (addr \<rightharpoonup> mapped_port)
     \<Rightarrow> World \<times> (addr \<rightharpoonup> mapped_port)" where
  \<comment> \<open>the body of the loop of \<open>splitAtU\<close> over the vertical triggers\<close>
  "distributeVTrigger normalizedU l r oldTrigger = (\<lambda>(w, pm).
     if vt_u oldTrigger < normalizedU then
       (let newU = (if normalizedU = 0 then 0 else vt_u oldTrigger / normalizedU)
        in case pushNewVTrigger l (clamp newU 0 1) w of
             (newTrigger, w1) \<Rightarrow>
               (w1, pm(portInput oldTrigger \<mapsto> OnePort (portInput newTrigger),
                       portOutput oldTrigger \<mapsto> OnePort (portOutput newTrigger))))
     else if vt_u oldTrigger > normalizedU then
       (let newU = (vt_u oldTrigger - normalizedU) / (1 - normalizedU)
        in case pushNewVTrigger r (clamp newU 0 1) w of
             (newTrigger, w1) \<Rightarrow>
               (w1, pm(portInput oldTrigger \<mapsto> OnePort (portInput newTrigger),
                       portOutput oldTrigger \<mapsto> OnePort (portOutput newTrigger))))
     else
       (case pushNewVTrigger l 1 w of
          (leftTrigger, w1) \<Rightarrow>
            (case pushNewVTrigger r 0 w1 of
               (rightTrigger, w2) \<Rightarrow>
                 (w2, pm(portInput oldTrigger \<mapsto>
                           PortArray [portInput leftTrigger, portInput rightTrigger],
                         portOutput oldTrigger \<mapsto>
                           PortArray [portOutput leftTrigger, portOutput rightTrigger])))))"

definition distributeHTrigger ::
  "addr \<Rightarrow> addr \<Rightarrow> HTrigger \<Rightarrow> World \<times> (addr \<rightharpoonup> mapped_port)
     \<Rightarrow> World \<times> (addr \<rightharpoonup> mapped_port)" where
  \<comment> \<open>the body of the loop over the horizontal triggers\<close>
  "distributeHTrigger l r oldTrigger = (\<lambda>(w, pm).
     case pushNewHTrigger l (ht_v oldTrigger) w of
       (leftTrigger, w1) \<Rightarrow>
         (case pushNewHTrigger r (ht_v oldTrigger) w1 of
            (rightTrigger, w2) \<Rightarrow>
              (w2, pm(portUp oldTrigger \<mapsto> PortArray [portUp leftTrigger, portUp rightTrigger],
                      portDown oldTrigger \<mapsto>
                        PortArray [portDown leftTrigger, portDown rightTrigger]))))"

definition splitAtU :: "real \<Rightarrow> addr \<Rightarrow> World \<Rightarrow> split_outcome" where
  \<comment> \<open>\<open>splitAtU\<close> of the node at the address. \<open>SplitNull\<close>: the split is rejected
      (\<open>return null\<close>); \<open>SplitNaN\<close>: the split value is not a number.\<close>
  "splitAtU uu a w =
     (let this = nodes w a;
          normalizedU = clamp uu 0 1;
          EPS = 2 / 100
      in if normalizedU \<le> EPS \<or> normalizedU \<ge> 1 - EPS then SplitNull
         else (case splitSamplesAtU normalizedU this of
                 None \<Rightarrow> SplitNaN
               | Some (leftSamples, rightSamples) \<Rightarrow>
                   (let leftWidth = max 2 (of_int (mathRound (n_w this * normalizedU)));
                        rightWidth = max 2 (n_w this - leftWidth)
                    in case allocNode
                              ((WaveformNode_new (n_x this) (n_y this) (label this)
                                  leftSamples leftWidth (cc this))
                               \<lparr>sourceDeviceName := sourceDeviceName this\<rparr>) w of
                         (l, w1) \<Rightarrow>
                           (case allocNode
                                   ((WaveformNode_new (n_x this + leftWidth) (n_y this)
                                       (label this) rightSamples rightWidth (cc this))
                                    \<lparr>sourceDeviceName := sourceDeviceName this\<rparr>) w1 of
                              (r, w2) \<Rightarrow>
                                (case fold (distributeVTrigger normalizedU l r)
                                        (vTriggers this) (w2, Map.empty) of
                                   (w3, pm1) \<Rightarrow>
                                     (case fold (distributeHTrigger l r)
                                             (hTriggers this) (w3, pm1) of
                                        (w4, pm2) \<Rightarrow>
                                          SplitOk \<lparr>leftNode = l, rightNode = r,
                                                   portMap = pm2, splitU = normalizedU\<rparr>
                                                  w4))))))"


definition leftU :: "real \<Rightarrow> real \<Rightarrow> real" where
  \<comment> \<open>where a vertical trigger at \<open>p \<le> nu\<close> sits on the left node of a split at \<open>nu\<close>\<close>
  "leftU nu p = (if p < nu then p / nu else 1)"

definition rightU :: "real \<Rightarrow> real \<Rightarrow> real" where
  \<comment> \<open>where a vertical trigger at \<open>p \<ge> nu\<close> sits on the right node\<close>
  "rightU nu p = (if nu < p then (p - nu) / (1 - nu) else 0)"

definition leftIndex :: "real \<Rightarrow> VTrigger list \<Rightarrow> nat \<Rightarrow> nat" where
  \<comment> \<open>the number of triggers before index \<open>k\<close> that go to the left node: the index on
      the left node of the copy of the \<open>k\<close>-th trigger\<close>
  "leftIndex nu ts k = length (filter (\<lambda>t. vt_u t \<le> nu) (take k ts))"

definition rightIndex :: "real \<Rightarrow> VTrigger list \<Rightarrow> nat \<Rightarrow> nat" where
  "rightIndex nu ts k = length (filter (\<lambda>t. nu \<le> vt_u t) (take k ts))"

definition vPortsOf :: "VTrigger list \<Rightarrow> addr list" where
  "vPortsOf ts = concat (map (\<lambda>t. [portInput t, portOutput t]) ts)"

definition hPortsOf :: "HTrigger list \<Rightarrow> addr list" where
  "hPortsOf ts = concat (map (\<lambda>t. [portUp t, portDown t]) ts)"

definition vEntryOk ::
  "real \<Rightarrow> VTrigger list \<Rightarrow> VTrigger list \<Rightarrow> VTrigger list \<Rightarrow> (addr \<rightharpoonup> mapped_port) \<Rightarrow> nat \<Rightarrow> bool" where
  \<comment> \<open>the port map sends the ports of the \<open>k\<close>-th old vertical trigger to the ports of
      its copy or copies, which sit at the rescaled position\<close>
  "vEntryOk nu ts ls rs pm k =
     (let t = ts ! k; il = leftIndex nu ts k; ir = rightIndex nu ts k
      in (vt_u t < nu \<longrightarrow>
            il < length ls \<and> vt_u (ls ! il) = vt_u t / nu \<and>
            pm (portInput t) = Some (OnePort (portInput (ls ! il))) \<and>
            pm (portOutput t) = Some (OnePort (portOutput (ls ! il)))) \<and>
         (nu < vt_u t \<longrightarrow>
            ir < length rs \<and> vt_u (rs ! ir) = (vt_u t - nu) / (1 - nu) \<and>
            pm (portInput t) = Some (OnePort (portInput (rs ! ir))) \<and>
            pm (portOutput t) = Some (OnePort (portOutput (rs ! ir)))) \<and>
         (vt_u t = nu \<longrightarrow>
            il < length ls \<and> ir < length rs \<and>
            vt_u (ls ! il) = 1 \<and> vt_u (rs ! ir) = 0 \<and>
            pm (portInput t) = Some (PortArray [portInput (ls ! il), portInput (rs ! ir)]) \<and>
            pm (portOutput t) = Some (PortArray [portOutput (ls ! il), portOutput (rs ! ir)])))"

definition hEntryOk ::
  "HTrigger list \<Rightarrow> HTrigger list \<Rightarrow> HTrigger list \<Rightarrow> (addr \<rightharpoonup> mapped_port) \<Rightarrow> nat \<Rightarrow> bool" where
  \<comment> \<open>the port map sends the ports of the \<open>k\<close>-th old horizontal trigger to the ports of
      its two copies, the \<open>k\<close>-th horizontal triggers of the two nodes\<close>
  "hEntryOk ts ls rs pm k =
     (k < length ls \<and> k < length rs \<and>
      ht_v (ls ! k) = ht_v (ts ! k) \<and> ht_v (rs ! k) = ht_v (ts ! k) \<and>
      pm (portUp (ts ! k)) = Some (PortArray [portUp (ls ! k), portUp (rs ! k)]) \<and>
      pm (portDown (ts ! k)) = Some (PortArray [portDown (ls ! k), portDown (rs ! k)]))"

section \<open>Example values\<close>

definition exampleNode :: Node where
  \<comment> \<open>an idle node of width 200 (2000 ms), a ramp of three samples, one vertical
      trigger in the middle and one horizontal trigger at half height\<close>
  "exampleNode = (WaveformNode_new 0 0 ''CC 10'' [0, 1 / 2, 1] 200 10)
           \<lparr>vTriggers := [VTrigger_new (1 / 2) 0 1],
             hTriggers := [HTrigger_new (1 / 2) 2 3]\<rparr>"

definition examplePlayingNode :: Node where
  \<comment> \<open>the same node, playing from the middle since time 0\<close>
  "examplePlayingNode = startPlaybackFromU 0 (1 / 2) exampleNode"

definition exampleHTrigger :: HTrigger where
  \<comment> \<open>a horizontal trigger at half height that last saw the value 1/5\<close>
  "exampleHTrigger = (HTrigger_new (1 / 2) 2 3)\<lparr>lastValue := Some (1 / 5)\<rparr>"

definition emptyWorld :: World where
  \<comment> \<open>a store in which nothing has been created yet\<close>
  "emptyWorld = \<lparr>nodes = (\<lambda>_. WaveformNode_new 0 0 [] [] 0 0),
      ports = (\<lambda>_. Port_new (VTriggerRef 0 0) [] []),
      nextNode = 0, nextPort = 0, connections = []\<rparr>"

definition exampleWorld :: World where
  \<comment> \<open>node 0 with a vertical trigger in the middle (ports 0 and 1), node 1 with a
      vertical trigger at 1/4 (ports 2 and 3) and a horizontal trigger (ports 4 and
      5), and a cable from the output port 1 to the input port 2\<close>
  "exampleWorld =
     (case allocNode (WaveformNode_new 0 0 ''CC 10'' [0, 1 / 2, 1] 200 10) emptyWorld of
        (a, w1) \<Rightarrow>
     (case pushNewVTrigger a (1 / 2) w1 of
        (ta, w2) \<Rightarrow>
     (case allocNode (WaveformNode_new 300 0 ''CC 11'' [1, 0] 200 11) w2 of
        (b, w3) \<Rightarrow>
     (case pushNewVTrigger b (1 / 4) w3 of
        (tb, w4) \<Rightarrow>
     (case pushNewHTrigger b (1 / 2) w4 of
        (hb, w5) \<Rightarrow>
          w5\<lparr>connections :=
               [fst (Connection_new w5 (Some (PortObj (portOutput ta)))
                      (Some (PortObj (portInput tb))))]\<rparr>)))))"

definition exampleCable :: Connection where
  "exampleCable = \<lparr>portA = Some (PortObj 1), portB = Some (PortObj 2), c_isHovered = False\<rparr>"

definition exampleOutOut :: Connection where
  \<comment> \<open>an invalid cable between two output ports\<close>
  "exampleOutOut = \<lparr>portA = Some (PortObj 1), portB = Some (PortObj 3), c_isHovered = False\<rparr>"



section \<open>Properties of a single node\<close>

lemmas example_defs = exampleNode_def examplePlayingNode_def exampleHTrigger_def
  WaveformNode_new_def VTrigger_new_def HTrigger_new_def
  computeRunDuration_def PIXELS_PER_SECOND_def BOX_W_def BOX_H_def clamp_def
  startPlayback_def startPlaybackFromU_def markHitBefore_def
  Node_startPlayback_def stopPlayback_def resetCrossingState_def
  update_def updateTriggerPorts_def vTriggerStep_def hTriggerStep_def progressAt_def
  updatePortStates_def VTrigger_updatePortState_def HTrigger_updatePortState_def
  VTrigger_fireFlags_def HTrigger_fireUpFlags_def HTrigger_fireDownFlags_def
  getCurrentValue_def valueAt_def sampleAt_def checkCrossing_def getThresholdLevel_def
  Let_def

lemma clamp_range: "lo \<le> hi \<Longrightarrow> lo \<le> clamp val lo hi \<and> clamp val lo hi \<le> hi"
  by (simp add: clamp_def)


lemma clamp_id: "lo \<le> val \<Longrightarrow> val \<le> hi \<Longrightarrow> clamp val lo hi = val"
  by (simp add: clamp_def)

lemma vt_u_fireFlags [simp]: "vt_u (VTrigger_fireFlags now t) = vt_u t"
  by (simp add: VTrigger_fireFlags_def)

lemma vt_u_updatePortState [simp]: "vt_u (VTrigger_updatePortState now t) = vt_u t"
  by (simp add: VTrigger_updatePortState_def)


lemma markHitBefore_aux:
  "fold (\<lambda>i s. if vt_u (ts ! i) \<le> nu then insert i s else s) [0..<k] {} =
     {i. i < k \<and> vt_u (ts ! i) \<le> nu}"
  by (induction k) (auto simp: less_Suc_eq)

lemma markHitBefore_eq:
  "markHitBefore nu ts = {i. i < length ts \<and> vt_u (ts ! i) \<le> nu}"
  unfolding markHitBefore_def by (rule markHitBefore_aux)






lemma valueAt_defined:
  assumes ne: "samples n \<noteq> []"
  shows "\<exists>i j f. i < length (samples n) \<and> j < length (samples n) \<and> 0 \<le> f \<and> f \<le> 1 \<and>
           valueAt t n = Some (samples n ! i + (samples n ! j - samples n ! i) * f)"
proof -
  define nt where "nt = clamp t 0 1"
  define len where "len = int (length (samples n))"
  define pos where "pos = nt * of_int (len - 1)"
  define i where "i = \<lfloor>pos\<rfloor>"
  define j where "j = min (i + 1) (len - 1)"
  define f where "f = pos - of_int i"
  have nt: "0 \<le> nt" "nt \<le> 1" by (simp_all add: nt_def clamp_def)
  have l1: "1 \<le> len" using ne by (cases "samples n") (simp_all add: len_def)
  have pos0: "0 \<le> pos" using nt l1 by (simp add: pos_def)
  have pos1: "pos \<le> of_int (len - 1)"
  proof -
    have "nt * of_int (len - 1) \<le> 1 * of_int (len - 1)"
      using nt l1 by (intro mult_right_mono) simp_all
    then show ?thesis by (simp add: pos_def)
  qed
  have i0: "0 \<le> i" using pos0 by (simp add: i_def)
  have i1: "i \<le> len - 1" using floor_mono[OF pos1] by (simp add: i_def)
  have j0: "0 \<le> j" "j \<le> len - 1" using i0 l1 by (simp_all add: j_def)
  have f0: "0 \<le> f" "f \<le> 1" unfolding f_def i_def by linarith+
  have ai: "nat i < length (samples n)" using i0 i1 by (simp add: len_def)
  have aj: "nat j < length (samples n)" using j0 by (simp add: len_def)
  have sa: "sampleAt (samples n) i = Some (samples n ! nat i)"
    using i0 i1 by (simp add: sampleAt_def len_def)
  have sb: "sampleAt (samples n) j = Some (samples n ! nat j)"
    using j0 by (simp add: sampleAt_def len_def)
  have val: "valueAt t n =
      Some (samples n ! nat i + (samples n ! nat j - samples n ! nat i) * f)"
    using sa sb unfolding valueAt_def Let_def j_def f_def i_def pos_def nt_def len_def
    by simp
  show ?thesis using ai aj f0 val by blast
qed














lemma progressAt_start:
  "progressAt (n\<lparr>playStartTime := t0, startProgress := sp\<rparr>) t0 = clamp sp 0 1"
  by (simp add: progressAt_def clamp_def)



subsection \<open>Claim C1: a vertical trigger fires once per run\<close>



subsection \<open>Claim C3: starting playback\<close>

text \<open>
  C3, as the code has it. \<open>startPlayback\<close> on an idle node starts a run: the node is
  playing from the given time, \<open>playProgress\<close> and \<open>startProgress\<close> are 0,
  \<open>remainingDurationMs\<close> is \<open>durationMs\<close>, \<open>lastCCSent\<close> is -1, the fired set of the
  vertical triggers is empty and every horizontal trigger has \<open>lastValue = null\<close>
  (the triggers are otherwise unchanged). On a playing node the first statement
  of the method returns: the node is unchanged and the run is not restarted.
\<close>

theorem startPlayback_idle_or_playing:
  "(\<not> playing n \<longrightarrow>
      playing (startPlayback now n) \<and>
      playStartTime (startPlayback now n) = now \<and>
      playProgress (startPlayback now n) = 0 \<and>
      startProgress (startPlayback now n) = 0 \<and>
      remainingDurationMs (startPlayback now n) = durationMs n \<and>
      lastCCSent (startPlayback now n) = -1 \<and>
      vTriggersHitThisPlayback (startPlayback now n) = {} \<and>
      map lastValue (hTriggers (startPlayback now n)) =
        replicate (length (hTriggers n)) None \<and>
      map ht_v (hTriggers (startPlayback now n)) = map ht_v (hTriggers n) \<and>
      vTriggers (startPlayback now n) = vTriggers n) \<and>
   (playing n \<longrightarrow> startPlayback now n = n)"
proof (rule conjI; rule impI)
  assume idle: "\<not> playing n"
  have r: "map (lastValue \<circ> resetCrossingState) hs = replicate (length hs) None" for hs
    by (induction hs) (simp_all add: resetCrossingState_def)
  have v: "map (ht_v \<circ> resetCrossingState) hs = map ht_v hs" for hs
    by (induction hs) (simp_all add: resetCrossingState_def)
  show "playing (startPlayback now n) \<and>
      playStartTime (startPlayback now n) = now \<and>
      playProgress (startPlayback now n) = 0 \<and>
      startProgress (startPlayback now n) = 0 \<and>
      remainingDurationMs (startPlayback now n) = durationMs n \<and>
      lastCCSent (startPlayback now n) = -1 \<and>
      vTriggersHitThisPlayback (startPlayback now n) = {} \<and>
      map lastValue (hTriggers (startPlayback now n)) =
        replicate (length (hTriggers n)) None \<and>
      map ht_v (hTriggers (startPlayback now n)) = map ht_v (hTriggers n) \<and>
      vTriggers (startPlayback now n) = vTriggers n"
    using idle by (simp add: startPlayback_def Node_startPlayback_def Let_def r v)
next
  assume "playing n"
  then show "startPlayback now n = n" by (simp add: startPlayback_def)
qed

theorem startPlayback_idle_or_playing_witness:
  "\<not> playing exampleNode \<and>
   playing (startPlayback 7 exampleNode) \<and>
   playProgress (startPlayback 7 exampleNode) = 0 \<and>
   remainingDurationMs (startPlayback 7 exampleNode) = 2000 \<and>
   vTriggersHitThisPlayback (startPlayback 7 exampleNode) = {} \<and>
   playing examplePlayingNode \<and>
   startPlayback 7 examplePlayingNode = examplePlayingNode"
proof -
  have i: "\<not> playing exampleNode" and d: "durationMs exampleNode = 2000"
    by (simp_all add: example_defs)
  have p: "playing examplePlayingNode" by (simp add: example_defs)
  show ?thesis
    using startPlayback_idle_or_playing[of exampleNode 7]
      startPlayback_idle_or_playing[of examplePlayingNode 7] i d p
    by simp
qed

text \<open>
  The claim as the specification states it fails on a playing node: the example
  node, playing from the middle, keeps its progress 1/2, its start 1/2, its
  remaining 1000 ms (of 2000) and its fired set when \<open>startPlayback\<close> is called.
\<close>

theorem startPlayback_while_playing_counterexample:
  "playing examplePlayingNode \<and>
   playProgress (startPlayback 1000 examplePlayingNode) = 1 / 2 \<and>
   startProgress (startPlayback 1000 examplePlayingNode) = 1 / 2 \<and>
   remainingDurationMs (startPlayback 1000 examplePlayingNode) = 1000 \<and>
   durationMs examplePlayingNode = 2000 \<and>
   vTriggersHitThisPlayback (startPlayback 1000 examplePlayingNode) = {0}"
  by (simp add: example_defs)

subsection \<open>Claim C4: crossing detection of a horizontal trigger\<close>

text \<open>
  C4. \<open>checkCrossing(currentValue)\<close> on a trigger without a previous value stores the
  value and reports no crossing. With a previous value \<open>prev\<close> and the threshold
  \<open>1 - v\<close> it reports an up crossing exactly when \<open>prev < threshold \<le> curr\<close>, a down
  crossing exactly when \<open>prev > threshold \<ge> curr\<close>, and nothing otherwise; it always
  stores the current value, and a reported crossing carries its type, the threshold,
  \<open>fromValue = prev\<close> and \<open>toValue = curr\<close>.
\<close>

theorem checkCrossing_spec:
  "(lastValue t = None \<longrightarrow>
      checkCrossing c t = (None, t\<lparr>lastValue := Some c\<rparr>)) \<and>
   (\<forall>prev. lastValue t = Some prev \<longrightarrow>
      snd (checkCrossing c t) = t\<lparr>lastValue := Some c\<rparr> \<and>
      ((\<exists>r. fst (checkCrossing c t) = Some r \<and> cr_type r = ''up'') \<longleftrightarrow>
         prev < 1 - ht_v t \<and> c \<ge> 1 - ht_v t) \<and>
      ((\<exists>r. fst (checkCrossing c t) = Some r \<and> cr_type r = ''down'') \<longleftrightarrow>
         prev > 1 - ht_v t \<and> c \<le> 1 - ht_v t) \<and>
      (fst (checkCrossing c t) = None \<longleftrightarrow>
         \<not> (prev < 1 - ht_v t \<and> c \<ge> 1 - ht_v t) \<and>
         \<not> (prev > 1 - ht_v t \<and> c \<le> 1 - ht_v t)) \<and>
      (\<forall>r. fst (checkCrossing c t) = Some r \<longrightarrow>
         (cr_type r = ''up'' \<or> cr_type r = ''down'') \<and>
         threshold r = 1 - ht_v t \<and> fromValue r = prev \<and> toValue r = c))"
proof (rule conjI)
  show "lastValue t = None \<longrightarrow> checkCrossing c t = (None, t\<lparr>lastValue := Some c\<rparr>)"
    by (simp add: checkCrossing_def)
next
  show "\<forall>prev. lastValue t = Some prev \<longrightarrow>
      snd (checkCrossing c t) = t\<lparr>lastValue := Some c\<rparr> \<and>
      ((\<exists>r. fst (checkCrossing c t) = Some r \<and> cr_type r = ''up'') \<longleftrightarrow>
         prev < 1 - ht_v t \<and> c \<ge> 1 - ht_v t) \<and>
      ((\<exists>r. fst (checkCrossing c t) = Some r \<and> cr_type r = ''down'') \<longleftrightarrow>
         prev > 1 - ht_v t \<and> c \<le> 1 - ht_v t) \<and>
      (fst (checkCrossing c t) = None \<longleftrightarrow>
         \<not> (prev < 1 - ht_v t \<and> c \<ge> 1 - ht_v t) \<and>
         \<not> (prev > 1 - ht_v t \<and> c \<le> 1 - ht_v t)) \<and>
      (\<forall>r. fst (checkCrossing c t) = Some r \<longrightarrow>
         (cr_type r = ''up'' \<or> cr_type r = ''down'') \<and>
         threshold r = 1 - ht_v t \<and> fromValue r = prev \<and> toValue r = c)"
  proof (intro allI impI)
    fix prev
    assume p: "lastValue t = Some prev"
    have up: "prev < 1 - ht_v t \<and> c \<ge> 1 - ht_v t \<Longrightarrow>
        checkCrossing c t = (Some \<lparr>cr_type = ''up'', threshold = 1 - ht_v t,
           fromValue = prev, toValue = c\<rparr>, t\<lparr>lastValue := Some c\<rparr>)"
      using p by (simp add: checkCrossing_def getThresholdLevel_def Let_def)
    have down: "prev > 1 - ht_v t \<and> c \<le> 1 - ht_v t \<Longrightarrow>
        checkCrossing c t = (Some \<lparr>cr_type = ''down'', threshold = 1 - ht_v t,
           fromValue = prev, toValue = c\<rparr>, t\<lparr>lastValue := Some c\<rparr>)"
      using p by (simp add: checkCrossing_def getThresholdLevel_def Let_def)
    have none: "\<not> (prev < 1 - ht_v t \<and> c \<ge> 1 - ht_v t) \<Longrightarrow>
        \<not> (prev > 1 - ht_v t \<and> c \<le> 1 - ht_v t) \<Longrightarrow>
        checkCrossing c t = (None, t\<lparr>lastValue := Some c\<rparr>)"
      using p by (simp add: checkCrossing_def getThresholdLevel_def Let_def)
    consider (u) "prev < 1 - ht_v t \<and> c \<ge> 1 - ht_v t"
      | (d) "prev > 1 - ht_v t \<and> c \<le> 1 - ht_v t"
      | (n) "\<not> (prev < 1 - ht_v t \<and> c \<ge> 1 - ht_v t)"
            "\<not> (prev > 1 - ht_v t \<and> c \<le> 1 - ht_v t)"
      by blast
    then show "snd (checkCrossing c t) = t\<lparr>lastValue := Some c\<rparr> \<and>
      ((\<exists>r. fst (checkCrossing c t) = Some r \<and> cr_type r = ''up'') \<longleftrightarrow>
         prev < 1 - ht_v t \<and> c \<ge> 1 - ht_v t) \<and>
      ((\<exists>r. fst (checkCrossing c t) = Some r \<and> cr_type r = ''down'') \<longleftrightarrow>
         prev > 1 - ht_v t \<and> c \<le> 1 - ht_v t) \<and>
      (fst (checkCrossing c t) = None \<longleftrightarrow>
         \<not> (prev < 1 - ht_v t \<and> c \<ge> 1 - ht_v t) \<and>
         \<not> (prev > 1 - ht_v t \<and> c \<le> 1 - ht_v t)) \<and>
      (\<forall>r. fst (checkCrossing c t) = Some r \<longrightarrow>
         (cr_type r = ''up'' \<or> cr_type r = ''down'') \<and>
         threshold r = 1 - ht_v t \<and> fromValue r = prev \<and> toValue r = c)"
    proof cases
      case u
      then show ?thesis using up[OF u] by auto
    next
      case d
      then show ?thesis using down[OF d] by auto
    next
      case n
      then show ?thesis using none[OF n] by auto
    qed
  qed
qed

theorem checkCrossing_spec_witness:
  "lastValue (HTrigger_new (1 / 2) 2 3) = None \<and>
   checkCrossing (7 / 10) (HTrigger_new (1 / 2) 2 3) =
     (None, (HTrigger_new (1 / 2) 2 3)\<lparr>lastValue := Some (7 / 10)\<rparr>) \<and>
   lastValue exampleHTrigger = Some (1 / 5) \<and>
   (\<exists>r. fst (checkCrossing (7 / 10) exampleHTrigger) = Some r \<and> cr_type r = ''up'') \<and>
   snd (checkCrossing (7 / 10) exampleHTrigger) = exampleHTrigger\<lparr>lastValue := Some (7 / 10)\<rparr>"
proof -
  have a: "lastValue (HTrigger_new (1 / 2) 2 3) = None"
    by (simp add: HTrigger_new_def)
  have b: "lastValue exampleHTrigger = Some (1 / 5)" "ht_v exampleHTrigger = 1 / 2"
    by (simp_all add: exampleHTrigger_def HTrigger_new_def clamp_def)
  show ?thesis
    using checkCrossing_spec[of "HTrigger_new (1 / 2) 2 3" "7 / 10", THEN conjunct1]
      checkCrossing_spec[of exampleHTrigger "7 / 10", THEN conjunct2, rule_format, OF b(1)]
      a b
    by simp
qed

subsection \<open>Claim C5: starting playback at a position\<close>

text \<open>
  C5. \<open>startPlaybackFromU(u)\<close>, from any state of the node, sets \<open>startProgress\<close> and
  \<open>playProgress\<close> to \<open>clamp(u, 0, 1)\<close> and \<open>remainingDurationMs\<close> to
  \<open>max(1, (1 - clamp(u, 0, 1)) * durationMs)\<close>; the fired set becomes exactly the set
  of the indices of the vertical triggers at or before that position; every
  horizontal trigger has \<open>lastValue = null\<close> and keeps its \<open>v\<close>; the node is playing
  from the given time and \<open>lastCCSent\<close> is -1.
\<close>

theorem startPlaybackFromU_spec:
  "startProgress (startPlaybackFromU now uu n) = clamp uu 0 1 \<and>
   playProgress (startPlaybackFromU now uu n) = clamp uu 0 1 \<and>
   remainingDurationMs (startPlaybackFromU now uu n) =
     max 1 ((1 - clamp uu 0 1) * durationMs n) \<and>
   vTriggersHitThisPlayback (startPlaybackFromU now uu n) =
     {i. i < length (vTriggers n) \<and> vt_u (vTriggers n ! i) \<le> clamp uu 0 1} \<and>
   vTriggers (startPlaybackFromU now uu n) = vTriggers n \<and>
   map lastValue (hTriggers (startPlaybackFromU now uu n)) =
     replicate (length (hTriggers n)) None \<and>
   map ht_v (hTriggers (startPlaybackFromU now uu n)) = map ht_v (hTriggers n) \<and>
   playing (startPlaybackFromU now uu n) \<and>
   playStartTime (startPlaybackFromU now uu n) = now \<and>
   lastCCSent (startPlaybackFromU now uu n) = -1"
proof -
  have r: "map (lastValue \<circ> resetCrossingState) hs = replicate (length hs) None" for hs
    by (induction hs) (simp_all add: resetCrossingState_def)
  have v: "map (ht_v \<circ> resetCrossingState) hs = map ht_v hs" for hs
    by (induction hs) (simp_all add: resetCrossingState_def)
  show ?thesis
    by (simp add: startPlaybackFromU_def Let_def stopPlayback_def Node_startPlayback_def
        markHitBefore_eq r v)
qed

subsection \<open>Claim C10: the interpolated value\<close>

text \<open>
  C10. On a node with at least two samples, all in [0,1], \<open>valueAt(t)\<close> returns a
  number for every real \<open>t\<close> (both array reads are inside the array, the upper index
  being capped at \<open>n - 1\<close>), the number lies in [0,1], it only depends on \<open>t\<close> clamped
  to [0,1], \<open>valueAt(0)\<close> is the first sample and \<open>valueAt(1)\<close> the last.
\<close>

theorem valueAt_total_in_range:
  assumes len: "2 \<le> length (samples n)"
    and rng: "\<forall>s \<in> set (samples n). 0 \<le> s \<and> s \<le> 1"
  shows "(\<exists>val. valueAt t n = Some val \<and> 0 \<le> val \<and> val \<le> 1) \<and>
         valueAt t n = valueAt (clamp t 0 1) n \<and>
         0 \<le> \<lfloor>clamp t 0 1 * of_int (int (length (samples n)) - 1)\<rfloor> \<and>
         min (\<lfloor>clamp t 0 1 * of_int (int (length (samples n)) - 1)\<rfloor> + 1)
             (int (length (samples n)) - 1) < int (length (samples n)) \<and>
         valueAt 0 n = Some (hd (samples n)) \<and>
         valueAt 1 n = Some (last (samples n))"
proof -
  have ne: "samples n \<noteq> []" using len by auto
  obtain i j f where i: "i < length (samples n)" and j: "j < length (samples n)"
    and f: "0 \<le> f" "f \<le> 1"
    and val: "valueAt t n = Some (samples n ! i + (samples n ! j - samples n ! i) * f)"
    using valueAt_defined[OF ne, of t] by blast
  define a where "a = samples n ! i"
  define b where "b = samples n ! j"
  have a: "0 \<le> a" "a \<le> 1" using rng i by (simp_all add: a_def)
  have b: "0 \<le> b" "b \<le> 1" using rng j by (simp_all add: b_def)
  have eq: "a + (b - a) * f = a * (1 - f) + b * f" by (simp add: algebra_simps)
  have ge: "0 \<le> a * (1 - f) + b * f" using a b f by simp
  have "a * (1 - f) \<le> 1 * (1 - f)" using a f by (intro mult_right_mono) simp_all
  moreover have "b * f \<le> 1 * f" using b f by (intro mult_right_mono) simp_all
  ultimately have le: "a * (1 - f) + b * f \<le> 1" by simp
  have first: "\<exists>val. valueAt t n = Some val \<and> 0 \<le> val \<and> val \<le> 1"
    using val eq ge le by (simp add: a_def b_def)
  have idem: "clamp (clamp t 0 1) 0 1 = clamp t 0 1" by (simp add: clamp_def)
  have second: "valueAt t n = valueAt (clamp t 0 1) n"
    by (simp add: valueAt_def idem)
  have c: "0 \<le> clamp t 0 1" by (simp add: clamp_def)
  have "0 \<le> clamp t 0 1 * of_int (int (length (samples n)) - 1)"
    using c len by (intro mult_nonneg_nonneg) simp_all
  then have third: "0 \<le> \<lfloor>clamp t 0 1 * of_int (int (length (samples n)) - 1)\<rfloor>"
    by simp
  have fourth: "min (\<lfloor>clamp t 0 1 * of_int (int (length (samples n)) - 1)\<rfloor> + 1)
             (int (length (samples n)) - 1) < int (length (samples n))"
    by simp
  have zero: "valueAt 0 n = Some (hd (samples n))"
    using len by (cases "samples n") (auto simp: valueAt_def clamp_def sampleAt_def Let_def)
  have "nat (int (length (samples n)) - 1) = length (samples n) - 1" using len by simp
  then have one: "valueAt 1 n = Some (last (samples n))"
    using len ne by (simp add: valueAt_def clamp_def sampleAt_def Let_def last_conv_nth)
  show ?thesis using first second third fourth zero one by blast
qed

theorem valueAt_total_in_range_witness:
  "2 \<le> length (samples exampleNode) \<and>
   valueAt (3 / 4) exampleNode = Some (3 / 4) \<and>
   valueAt (- 5) exampleNode = Some 0 \<and>
   valueAt 7 exampleNode = Some 1 \<and>
   valueAt 0 exampleNode = Some 0 \<and> valueAt 1 exampleNode = Some 1"
proof -
  have l: "2 \<le> length (samples exampleNode)"
    and r: "\<forall>s \<in> set (samples exampleNode). 0 \<le> s \<and> s \<le> 1"
    and s: "samples exampleNode = [0, 1 / 2, 1]"
    by (simp_all add: example_defs)
  have v: "valueAt (3 / 4) exampleNode = Some (3 / 4)"
    "valueAt (- 5) exampleNode = valueAt 0 exampleNode"
    "valueAt 7 exampleNode = valueAt 1 exampleNode"
    by (simp_all add: valueAt_def sampleAt_def s clamp_def Let_def)
  show ?thesis
    using valueAt_total_in_range[OF l r, of 0] l s v by (simp add: clamp_def)
qed

section \<open>Properties of connections\<close>

lemmas world_defs = exampleWorld_def emptyWorld_def exampleCable_def exampleOutOut_def
  allocNode_def pushNewVTrigger_def pushNewHTrigger_def Port_new_def Connection_new_def
  VTrigger_new_def HTrigger_new_def WaveformNode_new_def clamp_def Let_def

lemma exampleWorld_connections: "connections exampleWorld = [exampleCable]"
  by (simp add: world_defs)

lemma exampleWorld_ports:
  "ports exampleWorld 0 = Port_new (VTriggerRef 0 0) ''input'' ''in''"
  "ports exampleWorld 1 = Port_new (VTriggerRef 0 0) ''output'' ''out''"
  "ports exampleWorld (Suc 0) = Port_new (VTriggerRef 0 0) ''output'' ''out''"
  "ports exampleWorld 2 = Port_new (VTriggerRef 1 0) ''input'' ''in''"
  "ports exampleWorld 3 = Port_new (VTriggerRef 1 0) ''output'' ''out''"
  "ports exampleWorld 4 = Port_new (HTriggerRef 1 0) ''up'' ''out''"
  "ports exampleWorld 5 = Port_new (HTriggerRef 1 0) ''down'' ''out''"
  by (simp_all add: world_defs)

lemma exampleWorld_triggers:
  "vTriggers (nodes exampleWorld 0) = [VTrigger_new (1 / 2) 0 1]"
  "hTriggers (nodes exampleWorld 0) = []"
  "vTriggers (nodes exampleWorld 1) = [VTrigger_new (1 / 4) 2 3]"
  "hTriggers (nodes exampleWorld 1) = [HTrigger_new (1 / 2) 4 5]"
  "vTriggers (nodes exampleWorld (Suc 0)) = [VTrigger_new (1 / 4) 2 3]"
  "hTriggers (nodes exampleWorld (Suc 0)) = [HTrigger_new (1 / 2) 4 5]"
  by (simp_all add: world_defs)

lemma exampleWorld_next: "nextNode exampleWorld = 2" "nextPort exampleWorld = 6"
  by (simp_all add: world_defs)

lemma getOtherPort_cases:
  "getOtherPort c s = Some t \<Longrightarrow>
     (portA c = Some s \<and> portB c = Some t) \<or> (portB c = Some s \<and> portA c = Some t)"
  by (auto simp: getOtherPort_def split: if_splits)

lemma propagate_blocked:
  "getPortRole w s \<noteq> ''out'' \<or> (\<forall>t. getOtherPort c s = Some t \<longrightarrow> getPortRole w t \<noteq> ''in'')
     \<Longrightarrow> propagateFireEvent nested now c s ty w = Some w"
  by (auto simp: propagateFireEvent_def Let_def split: option.splits)

subsection \<open>Claim C2: propagation is directional\<close>

text \<open>
  C2. A call of \<open>propagateFireEvent(sourcePort)\<close> on a connection returns with the
  whole state unchanged, so without firing anything, unless the role of the source
  port resolves to \<open>out\<close> and the connection has another endpoint whose role resolves
  to \<open>in\<close>. When both hold and the target is a Port object of type \<open>input\<close> owned by
  a vertical trigger, the call flashes the target port and runs
  \<open>startPlaybackFromU(trigger.u)\<close> on the node that owns the trigger, and nothing
  else. Both hold for every meaning of the nested calls, and so for the recursion
  closed with any positive amount of fuel.
\<close>

theorem propagateFireEvent_directional:
  "(getPortRole w sourcePort \<noteq> ''out'' \<or>
      (\<forall>t. getOtherPort c sourcePort = Some t \<longrightarrow> getPortRole w t \<noteq> ''in'') \<longrightarrow>
      propagateFireEvent nested now c sourcePort ty w = Some w \<and>
      propagateFireEventFuel (Suc k) now c sourcePort ty w = Some w) \<and>
   (getPortRole w sourcePort = ''out'' \<and> getOtherPort c sourcePort = Some (PortObj p) \<and>
      getPortRole w (PortObj p) = ''in'' \<and> p_type (ports w p) = ''input'' \<and>
      p_trigger (ports w p) = VTriggerRef a i \<longrightarrow>
      propagateFireEvent nested now c sourcePort ty w =
        Some (updNode a (startPlaybackFromU now (vt_u (vTriggers (nodes w a) ! i)))
               (w\<lparr>ports := (ports w)(p := blink now (ports w p))\<rparr>)) \<and>
      propagateFireEventFuel (Suc k) now c sourcePort ty w =
        Some (updNode a (startPlaybackFromU now (vt_u (vTriggers (nodes w a) ! i)))
               (w\<lparr>ports := (ports w)(p := blink now (ports w p))\<rparr>)))"
proof (rule conjI; rule impI)
  assume b: "getPortRole w sourcePort \<noteq> ''out'' \<or>
      (\<forall>t. getOtherPort c sourcePort = Some t \<longrightarrow> getPortRole w t \<noteq> ''in'')"
  show "propagateFireEvent nested now c sourcePort ty w = Some w \<and>
      propagateFireEventFuel (Suc k) now c sourcePort ty w = Some w"
    using propagate_blocked[OF b] by simp
next
  assume h: "getPortRole w sourcePort = ''out'' \<and> getOtherPort c sourcePort = Some (PortObj p) \<and>
      getPortRole w (PortObj p) = ''in'' \<and> p_type (ports w p) = ''input'' \<and>
      p_trigger (ports w p) = VTriggerRef a i"
  have fire: "Port_fire nst now p w =
      Some (updNode a (startPlaybackFromU now (vt_u (vTriggers (nodes w a) ! i)))
               (w\<lparr>ports := (ports w)(p := blink now (ports w p))\<rparr>))" for nst
    using h by (simp add: Port_fire_def Let_def blink_def triggerInputPort_def updNode_def)
  have "propagateFireEvent nst now c sourcePort ty w = Port_fire nst now p w" for nst
    using h by (simp add: propagateFireEvent_def Let_def)
  then show "propagateFireEvent nested now c sourcePort ty w =
        Some (updNode a (startPlaybackFromU now (vt_u (vTriggers (nodes w a) ! i)))
               (w\<lparr>ports := (ports w)(p := blink now (ports w p))\<rparr>)) \<and>
      propagateFireEventFuel (Suc k) now c sourcePort ty w =
        Some (updNode a (startPlaybackFromU now (vt_u (vTriggers (nodes w a) ! i)))
               (w\<lparr>ports := (ports w)(p := blink now (ports w p))\<rparr>))"
    using fire by simp
qed

lemma ex_roles:
  "getPortRole exampleWorld (PortObj 0) = ''in''"
  "getPortRole exampleWorld (PortObj 1) = ''out''"
  "getPortRole exampleWorld (PortObj 2) = ''in''"
  "getPortRole exampleWorld (PortObj 3) = ''out''"
  by (simp_all add: getPortRole_def exampleWorld_ports Port_new_def)

lemma ex_ports:
  "p_type (ports exampleWorld 2) = ''input''"
  "p_trigger (ports exampleWorld 2) = VTriggerRef 1 0"
  "vt_u (vTriggers (nodes exampleWorld 1) ! 0) = 1 / 4"
  "vt_u (vTriggers (nodes exampleWorld (Suc 0)) ! 0) = 1 / 4"
  by (simp_all add: exampleWorld_ports exampleWorld_triggers Port_new_def VTrigger_new_def
      clamp_def)

theorem propagateFireEvent_directional_witness:
  "getPortRole exampleWorld (PortObj 2) \<noteq> ''out'' \<and>
   propagateFireEventFuel 1 100 exampleCable (PortObj 2) (Some ''input'') exampleWorld =
     Some exampleWorld \<and>
   getPortRole exampleWorld (PortObj 1) = ''out'' \<and>
   getOtherPort exampleCable (PortObj 1) = Some (PortObj 2) \<and>
   getPortRole exampleWorld (PortObj 2) = ''in'' \<and>
   p_type (ports exampleWorld 2) = ''input'' \<and>
   p_trigger (ports exampleWorld 2) = VTriggerRef 1 0 \<and>
   propagateFireEventFuel 1 100 exampleCable (PortObj 1) (Some ''output'') exampleWorld =
     Some (updNode 1 (startPlaybackFromU 100 (1 / 4))
            (exampleWorld\<lparr>ports := (ports exampleWorld)(2 := blink 100 (ports exampleWorld 2))\<rparr>))"
proof -
  have o: "getOtherPort exampleCable (PortObj 1) = Some (PortObj 2)"
    by (simp add: getOtherPort_def exampleCable_def)
  have b: "getPortRole exampleWorld (PortObj 2) \<noteq> ''out''" using ex_roles by simp
  note t = propagateFireEvent_directional[of exampleWorld _ exampleCable _ 100 _ 0]
  have one: "propagateFireEventFuel 1 100 exampleCable (PortObj 2) (Some ''input'') exampleWorld =
     Some exampleWorld"
    using t[of "PortObj 2" "propagateFireEventFuel 0 100" "Some ''input''", THEN conjunct1] b
    by simp
  have two: "propagateFireEventFuel 1 100 exampleCable (PortObj 1) (Some ''output'') exampleWorld =
     Some (updNode 1 (startPlaybackFromU 100 (1 / 4))
            (exampleWorld\<lparr>ports := (ports exampleWorld)(2 := blink 100 (ports exampleWorld 2))\<rparr>))"
    using t[of "PortObj 1" "propagateFireEventFuel 0 100" "Some ''output''" 2 1 0, THEN conjunct2]
      ex_roles o
    by (simp add: ex_ports)
  show ?thesis using one two ex_roles o b by (simp add: ex_ports)
qed

subsection \<open>Claim C8: validity of a connection\<close>

text \<open>
  C8. \<open>_isValidConnection\<close> holds exactly when both ports exist, are not the same
  object, and their resolved roles are \<open>in\<close> and \<open>out\<close> in either order; the order of
  construction does not matter. The constructor returns the connection whatever
  the verdict (it only writes a warning when the connection is invalid). A call of
  \<open>propagateFireEvent\<close> on an invalid connection, from any source port, returns with
  the state unchanged.
\<close>

theorem connection_validity:
  "(isValidConnection w c \<longleftrightarrow>
      (\<exists>a b. portA c = Some a \<and> portB c = Some b \<and> a \<noteq> b \<and>
         ((getPortRole w a = ''in'' \<and> getPortRole w b = ''out'') \<or>
          (getPortRole w a = ''out'' \<and> getPortRole w b = ''in'')))) \<and>
   (isValidConnection w \<lparr>portA = pA, portB = pB, c_isHovered = hov\<rparr> \<longleftrightarrow>
      isValidConnection w \<lparr>portA = pB, portB = pA, c_isHovered = hov\<rparr>) \<and>
   fst (Connection_new w pA pB) = \<lparr>portA = pA, portB = pB, c_isHovered = False\<rparr> \<and>
   (snd (Connection_new w pA pB) = [] \<longleftrightarrow>
      isValidConnection w \<lparr>portA = pA, portB = pB, c_isHovered = False\<rparr>) \<and>
   (\<not> isValidConnection w c \<longrightarrow>
      propagateFireEvent nested now c sourcePort ty w = Some w \<and>
      propagateFireEventFuel (Suc k) now c sourcePort ty w = Some w)"
proof (intro conjI)
  show v: "isValidConnection w c \<longleftrightarrow>
      (\<exists>a b. portA c = Some a \<and> portB c = Some b \<and> a \<noteq> b \<and>
         ((getPortRole w a = ''in'' \<and> getPortRole w b = ''out'') \<or>
          (getPortRole w a = ''out'' \<and> getPortRole w b = ''in'')))" for c
    by (auto simp: isValidConnection_def Let_def split: option.splits)
  show "isValidConnection w \<lparr>portA = pA, portB = pB, c_isHovered = hov\<rparr> \<longleftrightarrow>
      isValidConnection w \<lparr>portA = pB, portB = pA, c_isHovered = hov\<rparr>"
    unfolding v by auto
  show "fst (Connection_new w pA pB) = \<lparr>portA = pA, portB = pB, c_isHovered = False\<rparr>"
    by (simp add: Connection_new_def Let_def)
  show "snd (Connection_new w pA pB) = [] \<longleftrightarrow>
      isValidConnection w \<lparr>portA = pA, portB = pB, c_isHovered = False\<rparr>"
    by (simp add: Connection_new_def Let_def)
  show "\<not> isValidConnection w c \<longrightarrow>
      propagateFireEvent nested now c sourcePort ty w = Some w \<and>
      propagateFireEventFuel (Suc k) now c sourcePort ty w = Some w"
  proof
    assume inv: "\<not> isValidConnection w c"
    have "getPortRole w sourcePort \<noteq> ''out'' \<or>
      (\<forall>t. getOtherPort c sourcePort = Some t \<longrightarrow> getPortRole w t \<noteq> ''in'')"
    proof (cases "getPortRole w sourcePort = ''out''")
      case False
      then show ?thesis by simp
    next
      case so: True
      have "\<forall>t. getOtherPort c sourcePort = Some t \<longrightarrow> getPortRole w t \<noteq> ''in''"
      proof (intro allI impI notI)
        fix t
        assume o: "getOtherPort c sourcePort = Some t"
          and ti: "getPortRole w t = ''in''"
        have ne: "sourcePort \<noteq> t" using so ti by auto
        from getOtherPort_cases[OF o] ne so ti have "isValidConnection w c"
          unfolding v by auto
        then show False using inv by simp
      qed
      then show ?thesis by simp
    qed
    from propagate_blocked[OF this]
    show "propagateFireEvent nested now c sourcePort ty w = Some w \<and>
      propagateFireEventFuel (Suc k) now c sourcePort ty w = Some w"
      by simp
  qed
qed

theorem connection_validity_witness:
  "isValidConnection exampleWorld exampleCable \<and>
   isValidConnection exampleWorld \<lparr>portA = Some (PortObj 2), portB = Some (PortObj 1), c_isHovered = False\<rparr> \<and>
   \<not> isValidConnection exampleWorld exampleOutOut \<and>
   Connection_new exampleWorld (Some (PortObj 1)) (Some (PortObj 3)) =
     (exampleOutOut, [''Invalid connection attempted:'']) \<and>
   propagateFireEventFuel 1 100 exampleOutOut (PortObj 1) (Some ''output'') exampleWorld =
     Some exampleWorld \<and>
   propagateFireEventFuel 1 100 exampleOutOut (PortObj 3) (Some ''output'') exampleWorld =
     Some exampleWorld"
proof -
  have a: "portA exampleCable = Some (PortObj 1)" "portB exampleCable = Some (PortObj 2)"
    "portA exampleOutOut = Some (PortObj 1)" "portB exampleOutOut = Some (PortObj 3)"
    by (simp_all add: exampleCable_def exampleOutOut_def)
  note t = connection_validity[of exampleWorld]
  have v1: "isValidConnection exampleWorld exampleCable"
    using t[of exampleCable, THEN conjunct1] a ex_roles by simp
  have v2: "isValidConnection exampleWorld
      \<lparr>portA = Some (PortObj 2), portB = Some (PortObj 1), c_isHovered = False\<rparr>"
    using t[of _ "Some (PortObj 1)" "Some (PortObj 2)" False, THEN conjunct2, THEN conjunct1] v1
    by (simp add: exampleCable_def)
  have v3: "\<not> isValidConnection exampleWorld exampleOutOut"
    using t[of exampleOutOut, THEN conjunct1] a ex_roles by simp
  have c: "Connection_new exampleWorld (Some (PortObj 1)) (Some (PortObj 3)) =
     (exampleOutOut, [''Invalid connection attempted:''])"
    using v3 by (simp add: Connection_new_def Let_def exampleOutOut_def)
  have p: "propagateFireEventFuel 1 100 exampleOutOut s (Some ''output'') exampleWorld =
     Some exampleWorld" for s
    using t[of exampleOutOut _ _ _ "propagateFireEventFuel 0 100" 100 s "Some ''output'' " 0] v3
    by simp
  show ?thesis using v1 v2 v3 c p by simp
qed

section \<open>Creating triggers, duplicating a node\<close>

lemma pushNewVTrigger_frame:
  assumes "pushNewVTrigger d uNorm w = (t, w')"
  shows "nextNode w' = nextNode w" "connections w' = connections w"
    "nextPort w' = nextPort w + 2"
    "\<And>b. b \<noteq> d \<Longrightarrow> nodes w' b = nodes w b"
    "\<And>p. p < nextPort w \<Longrightarrow> ports w' p = ports w p"
    "nodeData (nodes w' d) = nodeData (nodes w d)"
    "hTriggers (nodes w' d) = hTriggers (nodes w d)"
    "vTriggers (nodes w' d) = vTriggers (nodes w d) @ [t]"
    "t = VTrigger_new uNorm (nextPort w) (Suc (nextPort w))"
    "ports w' (nextPort w) = Port_new (VTriggerRef d (length (vTriggers (nodes w d)))) ''input'' ''in''"
    "ports w' (Suc (nextPort w)) = Port_new (VTriggerRef d (length (vTriggers (nodes w d)))) ''output'' ''out''"
  using assms by (auto simp: pushNewVTrigger_def Let_def nodeData_def)

lemma pushNewHTrigger_frame:
  assumes "pushNewHTrigger d vNorm w = (t, w')"
  shows "nextNode w' = nextNode w" "connections w' = connections w"
    "nextPort w' = nextPort w + 2"
    "\<And>b. b \<noteq> d \<Longrightarrow> nodes w' b = nodes w b"
    "\<And>p. p < nextPort w \<Longrightarrow> ports w' p = ports w p"
    "nodeData (nodes w' d) = nodeData (nodes w d)"
    "vTriggers (nodes w' d) = vTriggers (nodes w d)"
    "hTriggers (nodes w' d) = hTriggers (nodes w d) @ [t]"
    "t = HTrigger_new vNorm (nextPort w) (Suc (nextPort w))"
    "ports w' (nextPort w) = Port_new (HTriggerRef d (length (hTriggers (nodes w d)))) ''up'' ''out''"
    "ports w' (Suc (nextPort w)) = Port_new (HTriggerRef d (length (hTriggers (nodes w d)))) ''down'' ''out''"
  using assms by (auto simp: pushNewHTrigger_def Let_def nodeData_def)

lemma upt_two: "[n..<n + 2 * Suc k] = [n, Suc n] @ [n + 2..<n + 2 + 2 * k]"
proof -
  have "[n..<n + 2 * Suc k] = n # [Suc n..<n + 2 * Suc k]" by (simp add: upt_conv_Cons)
  also have "[Suc n..<n + 2 * Suc k] = Suc n # [Suc (Suc n)..<n + 2 * Suc k]"
    by (simp add: upt_conv_Cons)
  finally show ?thesis by simp
qed

lemma copyV_fold:
  "fold (\<lambda>t w'. snd (pushNewVTrigger d (f t) w')) ts w = w' \<Longrightarrow>
     nextNode w' = nextNode w \<and> connections w' = connections w \<and>
     nextPort w' = nextPort w + 2 * length ts \<and>
     (\<forall>b. b \<noteq> d \<longrightarrow> nodes w' b = nodes w b) \<and>
     (\<forall>p < nextPort w. ports w' p = ports w p) \<and>
     nodeData (nodes w' d) = nodeData (nodes w d) \<and>
     hTriggers (nodes w' d) = hTriggers (nodes w d) \<and>
     map vt_u (vTriggers (nodes w' d)) =
       map vt_u (vTriggers (nodes w d)) @ map (\<lambda>t. clamp (f t) 0 1) ts \<and>
     vTriggerPorts (nodes w' d) =
       vTriggerPorts (nodes w d) @ [nextPort w..<nextPort w + 2 * length ts] \<and>
     (\<forall>p. nextPort w \<le> p \<and> p < nextPort w' \<longrightarrow> trigger_node (p_trigger (ports w' p)) = d)"
proof (induction ts arbitrary: w)
  case Nil
  then show ?case by auto
next
  case (Cons t ts)
  obtain t1 w1 where p: "pushNewVTrigger d (f t) w = (t1, w1)"
    by (cases "pushNewVTrigger d (f t) w")
  note fr = pushNewVTrigger_frame[OF p]
  have "fold (\<lambda>t w'. snd (pushNewVTrigger d (f t) w')) ts w1 = w'"
    using Cons.prems p by simp
  note ih = Cons.IH[OF this]
  have a: "nextNode w' = nextNode w" "connections w' = connections w"
    "nextPort w' = nextPort w + 2 * length (t # ts)"
    "\<forall>b. b \<noteq> d \<longrightarrow> nodes w' b = nodes w b"
    "\<forall>p < nextPort w. ports w' p = ports w p"
    "nodeData (nodes w' d) = nodeData (nodes w d)"
    "hTriggers (nodes w' d) = hTriggers (nodes w d)"
    using ih fr by simp_all
  have b: "map vt_u (vTriggers (nodes w' d)) =
       map vt_u (vTriggers (nodes w d)) @ map (\<lambda>t. clamp (f t) 0 1) (t # ts)"
    using ih fr by (simp add: VTrigger_new_def)
  have c1: "vTriggerPorts (nodes w1 d) = vTriggerPorts (nodes w d) @ [nextPort w, Suc (nextPort w)]"
    using fr(8,9) by (simp add: vTriggerPorts_def VTrigger_new_def)
  have c2: "vTriggerPorts (nodes w' d) =
       vTriggerPorts (nodes w1 d) @ [nextPort w + 2..<nextPort w + 2 + 2 * length ts]"
    using ih fr(3) by simp
  have c: "vTriggerPorts (nodes w' d) =
       vTriggerPorts (nodes w d) @ [nextPort w..<nextPort w + 2 * length (t # ts)]"
  proof -
    have e: "[nextPort w..<nextPort w + 2 * length (t # ts)] =
        [nextPort w, Suc (nextPort w)] @ [nextPort w + 2..<nextPort w + 2 + 2 * length ts]"
      by (metis upt_two length_Cons)
    show ?thesis by (simp only: c2 c1 e append_assoc)
  qed
  have e: "\<forall>p. nextPort w \<le> p \<and> p < nextPort w' \<longrightarrow> trigger_node (p_trigger (ports w' p)) = d"
  proof (intro allI impI)
    fix p assume r: "nextPort w \<le> p \<and> p < nextPort w'"
    consider "p = nextPort w" | "p = Suc (nextPort w)" | "nextPort w1 \<le> p"
      using r fr(3) by linarith
    then show "trigger_node (p_trigger (ports w' p)) = d"
    proof cases
      case 1
      then have "ports w' p = ports w1 p" using ih fr(3) by simp
      then show ?thesis using 1 fr(10) by (simp add: Port_new_def)
    next
      case 2
      then have "ports w' p = ports w1 p" using ih fr(3) by simp
      then show ?thesis using 2 fr(11) by (simp add: Port_new_def)
    next
      case 3
      then show ?thesis using ih r by simp
    qed
  qed
  show ?case using a b c e by blast
qed

lemma copyH_fold:
  "fold (\<lambda>t w'. snd (pushNewHTrigger d (f t) w')) ts w = w' \<Longrightarrow>
     nextNode w' = nextNode w \<and> connections w' = connections w \<and>
     nextPort w' = nextPort w + 2 * length ts \<and>
     (\<forall>b. b \<noteq> d \<longrightarrow> nodes w' b = nodes w b) \<and>
     (\<forall>p < nextPort w. ports w' p = ports w p) \<and>
     nodeData (nodes w' d) = nodeData (nodes w d) \<and>
     vTriggers (nodes w' d) = vTriggers (nodes w d) \<and>
     map ht_v (hTriggers (nodes w' d)) =
       map ht_v (hTriggers (nodes w d)) @ map (\<lambda>t. clamp (f t) 0 1) ts \<and>
     hTriggerPorts (nodes w' d) =
       hTriggerPorts (nodes w d) @ [nextPort w..<nextPort w + 2 * length ts] \<and>
     (\<forall>p. nextPort w \<le> p \<and> p < nextPort w' \<longrightarrow> trigger_node (p_trigger (ports w' p)) = d)"
proof (induction ts arbitrary: w)
  case Nil
  then show ?case by auto
next
  case (Cons t ts)
  obtain t1 w1 where p: "pushNewHTrigger d (f t) w = (t1, w1)"
    by (cases "pushNewHTrigger d (f t) w")
  note fr = pushNewHTrigger_frame[OF p]
  have "fold (\<lambda>t w'. snd (pushNewHTrigger d (f t) w')) ts w1 = w'"
    using Cons.prems p by simp
  note ih = Cons.IH[OF this]
  have a: "nextNode w' = nextNode w" "connections w' = connections w"
    "nextPort w' = nextPort w + 2 * length (t # ts)"
    "\<forall>b. b \<noteq> d \<longrightarrow> nodes w' b = nodes w b"
    "\<forall>p < nextPort w. ports w' p = ports w p"
    "nodeData (nodes w' d) = nodeData (nodes w d)"
    "vTriggers (nodes w' d) = vTriggers (nodes w d)"
    using ih fr by simp_all
  have b: "map ht_v (hTriggers (nodes w' d)) =
       map ht_v (hTriggers (nodes w d)) @ map (\<lambda>t. clamp (f t) 0 1) (t # ts)"
    using ih fr by (simp add: HTrigger_new_def)
  have c1: "hTriggerPorts (nodes w1 d) = hTriggerPorts (nodes w d) @ [nextPort w, Suc (nextPort w)]"
    using fr(8,9) by (simp add: hTriggerPorts_def HTrigger_new_def)
  have c2: "hTriggerPorts (nodes w' d) =
       hTriggerPorts (nodes w1 d) @ [nextPort w + 2..<nextPort w + 2 + 2 * length ts]"
    using ih fr(3) by simp
  have c: "hTriggerPorts (nodes w' d) =
       hTriggerPorts (nodes w d) @ [nextPort w..<nextPort w + 2 * length (t # ts)]"
  proof -
    have e: "[nextPort w..<nextPort w + 2 * length (t # ts)] =
        [nextPort w, Suc (nextPort w)] @ [nextPort w + 2..<nextPort w + 2 + 2 * length ts]"
      by (metis upt_two length_Cons)
    show ?thesis by (simp only: c2 c1 e append_assoc)
  qed
  have e: "\<forall>p. nextPort w \<le> p \<and> p < nextPort w' \<longrightarrow> trigger_node (p_trigger (ports w' p)) = d"
  proof (intro allI impI)
    fix p assume r: "nextPort w \<le> p \<and> p < nextPort w'"
    consider "p = nextPort w" | "p = Suc (nextPort w)" | "nextPort w1 \<le> p"
      using r fr(3) by linarith
    then show "trigger_node (p_trigger (ports w' p)) = d"
    proof cases
      case 1
      then have "ports w' p = ports w1 p" using ih fr(3) by simp
      then show ?thesis using 1 fr(10) by (simp add: Port_new_def)
    next
      case 2
      then have "ports w' p = ports w1 p" using ih fr(3) by simp
      then show ?thesis using 2 fr(11) by (simp add: Port_new_def)
    next
      case 3
      then show ?thesis using ih r by simp
    qed
  qed
  show ?case using a b c e by blast
qed


lemma clamp_unit_id: "0 \<le> r \<Longrightarrow> r \<le> 1 \<Longrightarrow> clamp r 0 1 = r"
  by (simp add: clamp_def)

lemma endpointNode_frame:
  assumes "endpointNode w e < nextNode w" "\<forall>p. e = PortObj p \<longrightarrow> p < nextPort w"
    and "\<forall>p < nextPort w. ports w' p = ports w p"
  shows "endpointNode w' e = endpointNode w e"
  using assms by (cases e) simp_all

subsection \<open>Claim C9: the duplicate of a node\<close>

text \<open>
  C9. In a store in which every endpoint of a connection is an existing object,
  duplicating an existing node whose triggers have their positions in [0,1]
  creates one new node. When \<open>_createNodeDuplicate\<close> returns the new node has no
  triggers yet; once the two dynamic imports are fulfilled it has the same number
  of vertical and horizontal triggers as the original, in the same order and at
  the same \<open>u\<close> and \<open>v\<close>. The list of connections is the same as before, no
  connection involves the new node, and every connection involves the original
  exactly when it did before; the existing nodes (the original among them) and the
  existing Port objects are unchanged. The new node has the original's samples
  (stored with the new node, so not shared), \<open>cc\<close>, label and source device name. The
  Port objects of its triggers are exactly the objects created since the call,
  each one once, and each is owned by a trigger of the new node.
\<close>

theorem duplicate_is_unconnected_copy:
  assumes wf: "wellFormed w" and a: "a < nextNode w"
    and ub: "\<forall>t \<in> set (vTriggers (nodes w a)). 0 \<le> vt_u t \<and> vt_u t \<le> 1"
    and vb: "\<forall>t \<in> set (hTriggers (nodes w a)). 0 \<le> ht_v t \<and> ht_v t \<le> 1"
  shows "\<exists>d w1 w'. createNodeDuplicate_sync a w = (d, w1) \<and>
     createNodeDuplicate a w = (d, w') \<and> d = nextNode w \<and> d \<noteq> a \<and>
     vTriggers (nodes w1 d) = [] \<and> hTriggers (nodes w1 d) = [] \<and>
     connections w1 = connections w \<and> connections w' = connections w \<and>
     (\<forall>c \<in> set (connections w'). \<not> hasNode w' c d \<and> (hasNode w' c a \<longleftrightarrow> hasNode w c a)) \<and>
     (\<forall>b < nextNode w. nodes w' b = nodes w b) \<and>
     (\<forall>p < nextPort w. ports w' p = ports w p) \<and>
     samples (nodes w' d) = samples (nodes w a) \<and>
     cc (nodes w' d) = cc (nodes w a) \<and>
     label (nodes w' d) = label (nodes w a) \<and>
     sourceDeviceName (nodes w' d) = sourceDeviceName (nodes w a) \<and>
     map vt_u (vTriggers (nodes w' d)) = map vt_u (vTriggers (nodes w a)) \<and>
     map ht_v (hTriggers (nodes w' d)) = map ht_v (hTriggers (nodes w a)) \<and>
     vTriggerPorts (nodes w' d) @ hTriggerPorts (nodes w' d) = [nextPort w..<nextPort w'] \<and>
     (\<forall>p \<in> set (vTriggerPorts (nodes w' d) @ hTriggerPorts (nodes w' d)).
        trigger_node (p_trigger (ports w' p)) = d)"
proof -
  define d where "d = nextNode w"
  define dup where "dup = (WaveformNode_new (n_x (nodes w a) + 12) (n_y (nodes w a) + 12)
       (label (nodes w a)) (samples (nodes w a)) (n_w (nodes w a)) (cc (nodes w a)))
       \<lparr>sourceDeviceName := sourceDeviceName (nodes w a)\<rparr>"
  define w1 where "w1 = w\<lparr>nodes := (nodes w)(d := dup), nextNode := Suc d\<rparr>"
  define w2 where "w2 = copyVTriggers a d w1"
  define w3 where "w3 = copyHTriggers a d w2"
  have ad: "a \<noteq> d" using a by (simp add: d_def)
  have sync: "createNodeDuplicate_sync a w = (d, w1)"
    by (simp add: createNodeDuplicate_sync_def allocNode_def Let_def w1_def dup_def d_def)
  have full: "createNodeDuplicate a w = (d, w3)"
    by (simp add: createNodeDuplicate_def sync w3_def w2_def)
  have dupf: "vTriggers dup = []" "hTriggers dup = []" "samples dup = samples (nodes w a)"
    "cc dup = cc (nodes w a)" "label dup = label (nodes w a)"
    "sourceDeviceName dup = sourceDeviceName (nodes w a)"
    by (simp_all add: dup_def WaveformNode_new_def Let_def)
  have w1f: "nodes w1 a = nodes w a" "nodes w1 d = dup" "nextPort w1 = nextPort w"
    "connections w1 = connections w" "ports w1 = ports w"
    "\<And>b. b \<noteq> d \<Longrightarrow> nodes w1 b = nodes w b"
    using ad by (simp_all add: w1_def)
  have f2: "fold (\<lambda>t w'. snd (pushNewVTrigger d (vt_u t) w')) (vTriggers (nodes w a)) w1 = w2"
    by (simp add: w2_def copyVTriggers_def w1f)
  note v = copyV_fold[OF f2]
  have w2a: "nodes w2 a = nodes w a" using v ad w1f by simp
  have f3: "fold (\<lambda>t w'. snd (pushNewHTrigger d (ht_v t) w')) (hTriggers (nodes w a)) w2 = w3"
    by (simp add: w3_def copyHTriggers_def w2a)
  note h = copyH_fold[OF f3]
  have cu: "map (\<lambda>t. clamp (vt_u t) 0 1) (vTriggers (nodes w a)) = map vt_u (vTriggers (nodes w a))"
    using ub by (simp add: clamp_unit_id)
  have cv: "map (\<lambda>t. clamp (ht_v t) 0 1) (hTriggers (nodes w a)) = map ht_v (hTriggers (nodes w a))"
    using vb by (simp add: clamp_unit_id)
  have np2: "nextPort w2 = nextPort w + 2 * length (vTriggers (nodes w a))"
    using v w1f by simp
  have np3: "nextPort w3 = nextPort w2 + 2 * length (hTriggers (nodes w a))"
    using h by simp
  have conn: "connections w3 = connections w" using h v w1f by simp
  have oldnodes: "\<forall>b < nextNode w. nodes w3 b = nodes w b"
    using h v w1f(6) by (simp add: d_def)
  have oldports: "\<forall>p < nextPort w. ports w3 p = ports w p"
    using h v w1f np2 by simp
  have data: "nodeData (nodes w3 d) = nodeData dup"
    using h v w1f by simp
  have vu: "map vt_u (vTriggers (nodes w3 d)) = map vt_u (vTriggers (nodes w a))"
    using h v w1f dupf cu by simp
  have hv: "map ht_v (hTriggers (nodes w3 d)) = map ht_v (hTriggers (nodes w a))"
    using h v w1f dupf cv by simp
  have vp: "vTriggerPorts (nodes w3 d) = [nextPort w..<nextPort w2]"
  proof -
    have "vTriggerPorts (nodes w3 d) = vTriggerPorts (nodes w2 d)"
      using h by (simp add: vTriggerPorts_def)
    also have "\<dots> = vTriggerPorts dup @ [nextPort w..<nextPort w2]"
      using v w1f np2 by simp
    finally show ?thesis using dupf by (simp add: vTriggerPorts_def)
  qed
  have hp: "hTriggerPorts (nodes w3 d) = [nextPort w2..<nextPort w3]"
  proof -
    have "hTriggerPorts (nodes w2 d) = []"
      using v w1f dupf by (simp add: hTriggerPorts_def)
    then show ?thesis using h np3 by simp
  qed
  have allp: "vTriggerPorts (nodes w3 d) @ hTriggerPorts (nodes w3 d) = [nextPort w..<nextPort w3]"
  proof -
    have "nextPort w \<le> nextPort w2" "nextPort w2 \<le> nextPort w3" using np2 np3 by simp_all
    then show ?thesis unfolding vp hp by (metis upt_add_eq_append le_Suc_ex)
  qed
  have owner: "\<forall>p \<in> set (vTriggerPorts (nodes w3 d) @ hTriggerPorts (nodes w3 d)).
        trigger_node (p_trigger (ports w3 p)) = d"
  proof
    fix p assume "p \<in> set (vTriggerPorts (nodes w3 d) @ hTriggerPorts (nodes w3 d))"
    then have r: "nextPort w \<le> p" "p < nextPort w3" unfolding allp by simp_all
    show "trigger_node (p_trigger (ports w3 p)) = d"
    proof (cases "p < nextPort w2")
      case True
      then have "ports w3 p = ports w2 p" using h by simp
      then show ?thesis using v r True w1f by simp
    next
      case False
      then show ?thesis using h r by simp
    qed
  qed
  have cs: "\<forall>c \<in> set (connections w3). \<not> hasNode w3 c d \<and> (hasNode w3 c a \<longleftrightarrow> hasNode w c a)"
  proof
    fix c assume "c \<in> set (connections w3)"
    then have c: "c \<in> set (connections w)" using conn by simp
    have e: "endpointNode w3 e = endpointNode w e \<and> endpointNode w e < d"
      if "portA c = Some e \<or> portB c = Some e" for e
    proof -
      have 1: "endpointNode w e < nextNode w" and 2: "\<forall>p. e = PortObj p \<longrightarrow> p < nextPort w"
        using wf c that unfolding wellFormed_def by blast+
      show ?thesis using endpointNode_frame[OF 1 2 oldports] 1 by (simp add: d_def)
    qed
    show "\<not> hasNode w3 c d \<and> (hasNode w3 c a \<longleftrightarrow> hasNode w c a)"
      using e unfolding hasNode_def by (auto split: option.splits)
  qed
  have meta: "samples (nodes w3 d) = samples (nodes w a)" "cc (nodes w3 d) = cc (nodes w a)"
    "label (nodes w3 d) = label (nodes w a)"
    "sourceDeviceName (nodes w3 d) = sourceDeviceName (nodes w a)"
    using data dupf by (simp_all add: nodeData_def)
  show ?thesis
    using sync full ad w1f(2,4) dupf(1,2) conn cs oldnodes oldports meta vu hv allp owner
    by (intro exI[of _ d] exI[of _ w1] exI[of _ w3]) (simp add: d_def)
qed


lemma exampleWorld_wellFormed: "wellFormed exampleWorld"
  unfolding wellFormed_def exampleWorld_connections
  by (auto simp: exampleCable_def exampleWorld_ports exampleWorld_next Port_new_def)

theorem duplicate_is_unconnected_copy_witness:
  "wellFormed exampleWorld \<and> (1 :: nat) < nextNode exampleWorld \<and>
   hasNode exampleWorld exampleCable 1 \<and>
   (\<exists>w1 w'. createNodeDuplicate_sync 1 exampleWorld = (2, w1) \<and>
      vTriggers (nodes w1 2) = [] \<and>
      createNodeDuplicate 1 exampleWorld = (2, w') \<and>
      connections w' = [exampleCable] \<and>
      \<not> hasNode w' exampleCable 2 \<and> hasNode w' exampleCable 1 \<and>
      samples (nodes w' 2) = [1, 0] \<and>
      map vt_u (vTriggers (nodes w' 2)) = [1 / 4] \<and>
      map ht_v (hTriggers (nodes w' 2)) = [1 / 2] \<and>
      vTriggerPorts (nodes w' 2) @ hTriggerPorts (nodes w' 2) = [6..<nextPort w'])"
proof -
  have a: "(1 :: nat) < nextNode exampleWorld" by (simp add: exampleWorld_next)
  have ub: "\<forall>t \<in> set (vTriggers (nodes exampleWorld 1)). 0 \<le> vt_u t \<and> vt_u t \<le> 1"
    by (simp add: exampleWorld_triggers VTrigger_new_def clamp_def)
  have vb: "\<forall>t \<in> set (hTriggers (nodes exampleWorld 1)). 0 \<le> ht_v t \<and> ht_v t \<le> 1"
    by (simp add: exampleWorld_triggers HTrigger_new_def clamp_def)
  have hn: "hasNode exampleWorld exampleCable 1"
    by (simp add: hasNode_def exampleCable_def exampleWorld_ports Port_new_def)
  have s: "samples (nodes exampleWorld 1) = [1, 0]"
    by (simp add: world_defs)
  have m: "map vt_u (vTriggers (nodes exampleWorld 1)) = [1 / 4]"
    "map ht_v (hTriggers (nodes exampleWorld 1)) = [1 / 2]"
    by (simp_all add: exampleWorld_triggers VTrigger_new_def HTrigger_new_def clamp_def)
  from duplicate_is_unconnected_copy[OF exampleWorld_wellFormed a ub vb]
  obtain d w1 w' where r: "createNodeDuplicate_sync 1 exampleWorld = (d, w1)"
    "createNodeDuplicate 1 exampleWorld = (d, w')" "d = nextNode exampleWorld"
    "vTriggers (nodes w1 d) = []"
    "connections w' = connections exampleWorld"
    "\<forall>c \<in> set (connections w'). \<not> hasNode w' c d \<and>
        (hasNode w' c 1 \<longleftrightarrow> hasNode exampleWorld c 1)"
    "samples (nodes w' d) = samples (nodes exampleWorld 1)"
    "map vt_u (vTriggers (nodes w' d)) = map vt_u (vTriggers (nodes exampleWorld 1))"
    "map ht_v (hTriggers (nodes w' d)) = map ht_v (hTriggers (nodes exampleWorld 1))"
    "vTriggerPorts (nodes w' d) @ hTriggerPorts (nodes w' d) = [nextPort exampleWorld..<nextPort w']"
    by blast
  have d: "d = 2" using r(3) by (simp add: exampleWorld_next)
  have c: "\<not> hasNode w' exampleCable 2" "hasNode w' exampleCable 1"
    using r(5,6) hn d by (simp_all add: exampleWorld_connections)
  have k: "connections w' = [exampleCable]"
    using r(5) by (simp only: exampleWorld_connections)
  have s': "samples (nodes w' 2) = [1, 0]" using r(7) s d by simp
  have m': "map vt_u (vTriggers (nodes w' 2)) = [1 / 4]"
    "map ht_v (hTriggers (nodes w' 2)) = [1 / 2]"
    using r(8,9) m d by simp_all
  have p': "vTriggerPorts (nodes w' 2) @ hTriggerPorts (nodes w' 2) = [6..<nextPort w']"
    using r(10) d by (simp add: exampleWorld_next)
  have r1: "createNodeDuplicate_sync 1 exampleWorld = (2, w1)" 
    "createNodeDuplicate 1 exampleWorld = (2, w')" "vTriggers (nodes w1 2) = []"
    using r(1,2,4) d by simp_all
  have "\<exists>w1 w'. createNodeDuplicate_sync 1 exampleWorld = (2, w1) \<and>
      vTriggers (nodes w1 2) = [] \<and>
      createNodeDuplicate 1 exampleWorld = (2, w') \<and>
      connections w' = [exampleCable] \<and>
      \<not> hasNode w' exampleCable 2 \<and> hasNode w' exampleCable 1 \<and>
      samples (nodes w' 2) = [1, 0] \<and>
      map vt_u (vTriggers (nodes w' 2)) = [1 / 4] \<and>
      map ht_v (hTriggers (nodes w' 2)) = [1 / 2] \<and>
      vTriggerPorts (nodes w' 2) @ hTriggerPorts (nodes w' 2) = [6..<nextPort w']"
    by (intro exI[of _ w1] exI[of _ w'] conjI; fact)
  with exampleWorld_wellFormed a hn show ?thesis by (intro conjI)
qed

section \<open>Splitting a node\<close>








lemma splitSamplesAtU_ok:
  assumes len: "2 \<le> length (samples nd)"
  shows "\<exists>left right vs. splitSamplesAtU uu nd = Some (left, right) \<and>
           valueAt uu nd = Some vs \<and> last left = vs \<and> hd right = vs \<and>
           2 \<le> length left \<and> 2 \<le> length right"
proof -
  define nt where "nt = clamp uu 0 1"
  define len where "len = int (length (samples nd))"
  define pos where "pos = nt * of_int (len - 1)"
  define i where "i = \<lfloor>pos\<rfloor>"
  define j where "j = min (i + 1) (len - 1)"
  define f where "f = pos - of_int i"
  have nt: "0 \<le> nt" "nt \<le> 1" by (simp_all add: nt_def clamp_def)
  have l2: "2 \<le> len" using len by (simp add: len_def)
  have mx: "max 2 (int (length (samples nd))) = len" using l2 by (simp add: len_def)
  have pos0: "0 \<le> pos" using nt l2 by (simp add: pos_def)
  have pos1: "pos \<le> of_int (len - 1)"
  proof -
    have "nt * of_int (len - 1) \<le> 1 * of_int (len - 1)"
      using nt l2 by (intro mult_right_mono) simp_all
    then show ?thesis by (simp add: pos_def)
  qed
  have i0: "0 \<le> i" using pos0 by (simp add: i_def)
  have i1: "i \<le> len - 1" using floor_mono[OF pos1] by (simp add: i_def)
  have j0: "0 \<le> j" "j \<le> len - 1" using i0 l2 by (simp_all add: j_def)
  obtain si where si: "sampleAt (samples nd) i = Some si"
    using i0 i1 by (simp add: sampleAt_def len_def)
  obtain sj where sj: "sampleAt (samples nd) j = Some sj"
    using j0 by (simp add: sampleAt_def len_def)
  define vs where "vs = si + (sj - si) * f"
  define left where "left = take (nat (i + 1)) (samples nd) @ [vs]"
  define right where "right = vs # drop (nat j) (samples nd)"
  have ll: "2 \<le> length left"
    using i0 l2 by (simp add: left_def len_def)
  have lr: "2 \<le> length right"
    using j0 l2 by (simp add: right_def len_def)
  have e: "splitSamplesAtU uu nd =
      (case (sampleAt (samples nd) i, sampleAt (samples nd) j) of
         (Some si, Some sj) \<Rightarrow>
           Some (if length (take (nat (i + 1)) (samples nd) @ [si + (sj - si) * f]) < 2
                 then (take (nat (i + 1)) (samples nd) @ [si + (sj - si) * f]) @
                      [last (take (nat (i + 1)) (samples nd) @ [si + (sj - si) * f])]
                 else take (nat (i + 1)) (samples nd) @ [si + (sj - si) * f],
                 if length ((si + (sj - si) * f) # drop (nat j) (samples nd)) < 2
                 then hd ((si + (sj - si) * f) # drop (nat j) (samples nd)) #
                      (si + (sj - si) * f) # drop (nat j) (samples nd)
                 else (si + (sj - si) * f) # drop (nat j) (samples nd))
       | _ \<Rightarrow> None)"
    unfolding splitSamplesAtU_def Let_def mx j_def f_def i_def pos_def nt_def
    by (rule refl)
  have nl: "\<not> length (take (nat (i + 1)) (samples nd) @ [vs]) < 2"
    using i0 l2 by (auto simp: len_def)
  have nr: "\<not> length (vs # drop (nat j) (samples nd)) < 2"
    using j0 l2 by (auto simp: len_def)
  have sp: "splitSamplesAtU uu nd = Some (left, right)"
    unfolding e si sj using nl nr
    by (simp add: left_def right_def vs_def del: length_append length_Cons)
  have idem: "clamp uu 0 1 = nt" by (simp add: nt_def)
  have va: "valueAt uu nd = Some vs"
    using si sj
    unfolding valueAt_def Let_def vs_def j_def f_def i_def pos_def nt_def len_def
    by simp
  show ?thesis
    using sp va by (intro exI[of _ left] exI[of _ right] exI[of _ vs])
      (simp add: ll lr, simp add: left_def right_def)
qed


lemma splitAtU_unfold:
  assumes len: "2 \<le> length (samples (nodes w a))"
    and acc: "2 / 100 < clamp uu 0 1" "clamp uu 0 1 < 98 / 100"
  shows "\<exists>left right vs w3 pm1 w4 pm2.
     splitSamplesAtU (clamp uu 0 1) (nodes w a) = Some (left, right) \<and>
     valueAt (clamp uu 0 1) (nodes w a) = Some vs \<and> last left = vs \<and> hd right = vs \<and>
     2 \<le> length left \<and> 2 \<le> length right \<and>
     fold (distributeVTrigger (clamp uu 0 1) (nextNode w) (Suc (nextNode w)))
       (vTriggers (nodes w a))
       (w\<lparr>nodes := (nodes w)(nextNode w := splitLeftNode (nodes w a) (clamp uu 0 1) left,
                               Suc (nextNode w) := splitRightNode (nodes w a) (clamp uu 0 1) right),
          nextNode := Suc (Suc (nextNode w))\<rparr>, Map.empty) = (w3, pm1) \<and>
     fold (distributeHTrigger (nextNode w) (Suc (nextNode w)))
       (hTriggers (nodes w a)) (w3, pm1) = (w4, pm2) \<and>
     splitAtU uu a w =
       SplitOk \<lparr>leftNode = nextNode w, rightNode = Suc (nextNode w), portMap = pm2,
                splitU = clamp uu 0 1\<rparr> w4"
proof -
  define nu where "nu = clamp uu 0 1"
  obtain left right vs where sp: "splitSamplesAtU nu (nodes w a) = Some (left, right)"
    and va: "valueAt nu (nodes w a) = Some vs" "last left = vs" "hd right = vs"
      "2 \<le> length left" "2 \<le> length right"
    using splitSamplesAtU_ok[OF len, of nu] by blast
  define w2 where "w2 = w\<lparr>nodes := (nodes w)(nextNode w := splitLeftNode (nodes w a) nu left,
                               Suc (nextNode w) := splitRightNode (nodes w a) nu right),
          nextNode := Suc (Suc (nextNode w))\<rparr>"
  obtain w3 pm1 where f1: "fold (distributeVTrigger nu (nextNode w) (Suc (nextNode w)))
       (vTriggers (nodes w a)) (w2, Map.empty) = (w3, pm1)"
    by (cases "fold (distributeVTrigger nu (nextNode w) (Suc (nextNode w)))
       (vTriggers (nodes w a)) (w2, Map.empty)")
  obtain w4 pm2 where f2: "fold (distributeHTrigger (nextNode w) (Suc (nextNode w)))
       (hTriggers (nodes w a)) (w3, pm1) = (w4, pm2)"
    by (cases "fold (distributeHTrigger (nextNode w) (Suc (nextNode w)))
       (hTriggers (nodes w a)) (w3, pm1)")
  have r: "splitAtU uu a w =
       SplitOk \<lparr>leftNode = nextNode w, rightNode = Suc (nextNode w), portMap = pm2,
                splitU = nu\<rparr> w4"
    using acc sp f1 f2
    unfolding splitAtU_def Let_def nu_def[symmetric] allocNode_def w2_def
      splitLeftNode_def splitRightNode_def
    by simp
  show ?thesis
    using sp va f1 f2 r unfolding nu_def w2_def by blast
qed




lemma exampleWorld_node1:
  "samples (nodes exampleWorld 1) = [1, 0]" "n_w (nodes exampleWorld 1) = 200"
  "samples (nodes exampleWorld (Suc 0)) = [1, 0]"
  by (simp_all add: world_defs)

subsection \<open>Claim C6: widths and seam of a split\<close>




section \<open>The triggers of a split node\<close>


text \<open>One step of the distribution of the vertical triggers, case by case.\<close>

lemma distributeVTrigger_step:
  assumes lr: "l \<noteq> r" and nu: "0 < nu" "nu < 1"
    and b: "0 \<le> vt_u t" "vt_u t \<le> 1"
    and s: "distributeVTrigger nu l r t (w, pm) = (w', pm')"
  shows "hTriggers (nodes w' l) = hTriggers (nodes w l) \<and>
         hTriggers (nodes w' r) = hTriggers (nodes w r) \<and>
     (vt_u t < nu \<longrightarrow>
        (\<exists>nt. vTriggers (nodes w' l) = vTriggers (nodes w l) @ [nt] \<and>
              vTriggers (nodes w' r) = vTriggers (nodes w r) \<and>
              vt_u nt = vt_u t / nu \<and>
              pm' = pm(portInput t \<mapsto> OnePort (portInput nt),
                       portOutput t \<mapsto> OnePort (portOutput nt)))) \<and>
     (nu < vt_u t \<longrightarrow>
        (\<exists>nt. vTriggers (nodes w' r) = vTriggers (nodes w r) @ [nt] \<and>
              vTriggers (nodes w' l) = vTriggers (nodes w l) \<and>
              vt_u nt = (vt_u t - nu) / (1 - nu) \<and>
              pm' = pm(portInput t \<mapsto> OnePort (portInput nt),
                       portOutput t \<mapsto> OnePort (portOutput nt)))) \<and>
     (vt_u t = nu \<longrightarrow>
        (\<exists>lt rt. vTriggers (nodes w' l) = vTriggers (nodes w l) @ [lt] \<and>
              vTriggers (nodes w' r) = vTriggers (nodes w r) @ [rt] \<and>
              vt_u lt = 1 \<and> vt_u rt = 0 \<and>
              pm' = pm(portInput t \<mapsto> PortArray [portInput lt, portInput rt],
                       portOutput t \<mapsto> PortArray [portOutput lt, portOutput rt])))"
proof -
  consider (lt) "vt_u t < nu" | (gt) "nu < vt_u t" | (eq) "vt_u t = nu" by linarith
  then show ?thesis
  proof cases
    case lt
    define newU where "newU = vt_u t / nu"
    have nr: "0 \<le> newU" "newU \<le> 1" using lt b nu by (simp_all add: newU_def)
    obtain nt w1 where p: "pushNewVTrigger l (clamp newU 0 1) w = (nt, w1)"
      by (cases "pushNewVTrigger l (clamp newU 0 1) w")
    note f = pushNewVTrigger_frame[OF p]
    have e: "w' = w1" "pm' = pm(portInput t \<mapsto> OnePort (portInput nt),
                       portOutput t \<mapsto> OnePort (portOutput nt))"
      using s lt nu p by (simp_all add: distributeVTrigger_def Let_def newU_def)
    have u: "vt_u nt = vt_u t / nu"
      using f(9) nr by (simp add: VTrigger_new_def clamp_unit_id newU_def)
    show ?thesis using lt f(4)[of r] f(7,8) e u lr by auto
  next
    case gt
    define newU where "newU = (vt_u t - nu) / (1 - nu)"
    have nr: "0 \<le> newU" "newU \<le> 1" using gt b nu by (simp_all add: newU_def)
    obtain nt w1 where p: "pushNewVTrigger r (clamp newU 0 1) w = (nt, w1)"
      by (cases "pushNewVTrigger r (clamp newU 0 1) w")
    note f = pushNewVTrigger_frame[OF p]
    have e: "w' = w1" "pm' = pm(portInput t \<mapsto> OnePort (portInput nt),
                       portOutput t \<mapsto> OnePort (portOutput nt))"
      using s gt nu p by (simp_all add: distributeVTrigger_def Let_def newU_def)
    have u: "vt_u nt = (vt_u t - nu) / (1 - nu)"
      using f(9) nr by (simp add: VTrigger_new_def clamp_unit_id newU_def)
    show ?thesis using gt f(4)[of l] f(7,8) e u lr by auto
  next
    case eq
    obtain lt w1 where p1: "pushNewVTrigger l 1 w = (lt, w1)"
      by (cases "pushNewVTrigger l 1 w")
    obtain rt w2 where p2: "pushNewVTrigger r 0 w1 = (rt, w2)"
      by (cases "pushNewVTrigger r 0 w1")
    note f1 = pushNewVTrigger_frame[OF p1]
    note f2 = pushNewVTrigger_frame[OF p2]
    have e: "w' = w2" "pm' = pm(portInput t \<mapsto> PortArray [portInput lt, portInput rt],
                       portOutput t \<mapsto> PortArray [portOutput lt, portOutput rt])"
      using s eq p1 p2 by (simp_all add: distributeVTrigger_def Let_def)
    have u: "vt_u lt = 1" "vt_u rt = 0" using f1(9) f2(9) by (simp_all add: VTrigger_new_def clamp_def)
    have a: "vTriggers (nodes w2 l) = vTriggers (nodes w l) @ [lt]"
      using f2(4)[of l] f1(8) lr by simp
    have c: "vTriggers (nodes w2 r) = vTriggers (nodes w r) @ [rt]"
      using f2(8) f1(4)[of r] lr by simp
    have h: "hTriggers (nodes w2 l) = hTriggers (nodes w l)"
      "hTriggers (nodes w2 r) = hTriggers (nodes w r)"
      using f2(4)[of l] f1(7) f2(7) f1(4)[of r] lr by simp_all
    show ?thesis using eq e u a c h by auto
  qed
qed


lemma distributeHTrigger_step:
  assumes lr: "l \<noteq> r" and b: "0 \<le> ht_v t" "ht_v t \<le> 1"
    and s: "distributeHTrigger l r t (w, pm) = (w', pm')"
  shows "vTriggers (nodes w' l) = vTriggers (nodes w l) \<and>
         vTriggers (nodes w' r) = vTriggers (nodes w r) \<and>
     (\<exists>lt rt. hTriggers (nodes w' l) = hTriggers (nodes w l) @ [lt] \<and>
              hTriggers (nodes w' r) = hTriggers (nodes w r) @ [rt] \<and>
              ht_v lt = ht_v t \<and> ht_v rt = ht_v t \<and>
              pm' = pm(portUp t \<mapsto> PortArray [portUp lt, portUp rt],
                       portDown t \<mapsto> PortArray [portDown lt, portDown rt]))"
proof -
  obtain lt w1 where p1: "pushNewHTrigger l (ht_v t) w = (lt, w1)"
    by (cases "pushNewHTrigger l (ht_v t) w")
  obtain rt w2 where p2: "pushNewHTrigger r (ht_v t) w1 = (rt, w2)"
    by (cases "pushNewHTrigger r (ht_v t) w1")
  note f1 = pushNewHTrigger_frame[OF p1]
  note f2 = pushNewHTrigger_frame[OF p2]
  have e: "w' = w2" "pm' = pm(portUp t \<mapsto> PortArray [portUp lt, portUp rt],
                       portDown t \<mapsto> PortArray [portDown lt, portDown rt])"
    using s p1 p2 by (simp_all add: distributeHTrigger_def)
  have u: "ht_v lt = ht_v t" "ht_v rt = ht_v t"
    using f1(9) f2(9) b by (simp_all add: HTrigger_new_def clamp_unit_id)
  have a: "hTriggers (nodes w2 l) = hTriggers (nodes w l) @ [lt]"
    using f2(4)[of l] f1(8) lr by simp
  have c: "hTriggers (nodes w2 r) = hTriggers (nodes w r) @ [rt]"
    using f2(8) f1(4)[of r] lr by simp
  have h: "vTriggers (nodes w2 l) = vTriggers (nodes w l)"
    "vTriggers (nodes w2 r) = vTriggers (nodes w r)"
    using f2(4)[of l] f1(7) f2(7) f1(4)[of r] lr by simp_all
  show ?thesis using e u a c h by auto
qed

lemma vEntryOk_extend:
  assumes "k < length ts" "vEntryOk nu ts ls rs pm k"
    "pm' (portInput (ts ! k)) = pm (portInput (ts ! k))"
    "pm' (portOutput (ts ! k)) = pm (portOutput (ts ! k))"
  shows "vEntryOk nu (ts @ us) (ls @ xs) (rs @ ys) pm' k"
  using assms by (auto simp: vEntryOk_def Let_def leftIndex_def rightIndex_def nth_append)

lemma hEntryOk_extend:
  assumes "k < length ts" "hEntryOk ts ls rs pm k"
    "pm' (portUp (ts ! k)) = pm (portUp (ts ! k))"
    "pm' (portDown (ts ! k)) = pm (portDown (ts ! k))"
  shows "hEntryOk (ts @ us) (ls @ xs) (rs @ ys) pm' k"
  using assms by (auto simp: hEntryOk_def nth_append)

lemma vPortsOf_snoc: "vPortsOf (ts @ [t]) = vPortsOf ts @ [portInput t, portOutput t]"
  by (simp add: vPortsOf_def)

lemma hPortsOf_snoc: "hPortsOf (ts @ [t]) = hPortsOf ts @ [portUp t, portDown t]"
  by (simp add: hPortsOf_def)

lemma vPortsOf_nth:
  "k < length ts \<Longrightarrow> portInput (ts ! k) \<in> set (vPortsOf ts) \<and> portOutput (ts ! k) \<in> set (vPortsOf ts)"
  by (auto simp: vPortsOf_def)

lemma hPortsOf_nth:
  "k < length ts \<Longrightarrow> portUp (ts ! k) \<in> set (hPortsOf ts) \<and> portDown (ts ! k) \<in> set (hPortsOf ts)"
  by (auto simp: hPortsOf_def)


lemma vEntryOk_new_left:
  assumes "vt_u t < nu" "length ls = length (filter (\<lambda>t. vt_u t \<le> nu) ts)"
    "vt_u nt = vt_u t / nu" "portInput t \<noteq> portOutput t"
  shows "vEntryOk nu (ts @ [t]) (ls @ [nt]) rs
     (pm(portInput t \<mapsto> OnePort (portInput nt), portOutput t \<mapsto> OnePort (portOutput nt)))
     (length ts)"
  using assms by (simp add: vEntryOk_def Let_def leftIndex_def rightIndex_def nth_append)

lemma vEntryOk_new_right:
  assumes "nu < vt_u t" "length rs = length (filter (\<lambda>t. nu \<le> vt_u t) ts)"
    "vt_u nt = (vt_u t - nu) / (1 - nu)" "portInput t \<noteq> portOutput t"
  shows "vEntryOk nu (ts @ [t]) ls (rs @ [nt])
     (pm(portInput t \<mapsto> OnePort (portInput nt), portOutput t \<mapsto> OnePort (portOutput nt)))
     (length ts)"
  using assms by (simp add: vEntryOk_def Let_def leftIndex_def rightIndex_def nth_append)

lemma vEntryOk_new_both:
  assumes "vt_u t = nu" "length ls = length (filter (\<lambda>t. vt_u t \<le> nu) ts)"
    "length rs = length (filter (\<lambda>t. nu \<le> vt_u t) ts)"
    "vt_u lt = 1" "vt_u rt = 0" "portInput t \<noteq> portOutput t"
  shows "vEntryOk nu (ts @ [t]) (ls @ [lt]) (rs @ [rt])
     (pm(portInput t \<mapsto> PortArray [portInput lt, portInput rt],
         portOutput t \<mapsto> PortArray [portOutput lt, portOutput rt]))
     (length ts)"
  using assms by (simp add: vEntryOk_def Let_def leftIndex_def rightIndex_def nth_append)

lemma hEntryOk_new:
  assumes "length ls = length ts" "length rs = length ts"
    "ht_v lt = ht_v t" "ht_v rt = ht_v t" "portUp t \<noteq> portDown t"
  shows "hEntryOk (ts @ [t]) (ls @ [lt]) (rs @ [rt])
     (pm(portUp t \<mapsto> PortArray [portUp lt, portUp rt],
         portDown t \<mapsto> PortArray [portDown lt, portDown rt]))
     (length ts)"
  using assms by (simp add: hEntryOk_def nth_append)

lemma map_length_eq: "map f xs = map g ys \<Longrightarrow> length xs = length ys"
  by (metis length_map)

lemma fold_distributeVTrigger_inv:
  assumes lr: "l \<noteq> r" and nu: "0 < nu" "nu < 1"
    and e0: "vTriggers (nodes w0 l) = []" "vTriggers (nodes w0 r) = []"
  shows "distinct (vPortsOf ts) \<Longrightarrow> (\<forall>t\<in>set ts. 0 \<le> vt_u t \<and> vt_u t \<le> 1) \<Longrightarrow>
     fold (distributeVTrigger nu l r) ts (w0, pm0) = (w, pm) \<Longrightarrow>
     hTriggers (nodes w l) = hTriggers (nodes w0 l) \<and>
     hTriggers (nodes w r) = hTriggers (nodes w0 r) \<and>
     map vt_u (vTriggers (nodes w l)) = map (leftU nu) (filter (\<lambda>p. p \<le> nu) (map vt_u ts)) \<and>
     map vt_u (vTriggers (nodes w r)) = map (rightU nu) (filter (\<lambda>p. nu \<le> p) (map vt_u ts)) \<and>
     (\<forall>q. q \<notin> set (vPortsOf ts) \<longrightarrow> pm q = pm0 q) \<and>
     (\<forall>k<length ts. vEntryOk nu ts (vTriggers (nodes w l)) (vTriggers (nodes w r)) pm k)"
proof (induction ts arbitrary: w pm rule: rev_induct)
  case Nil
  then show ?case using e0 by (simp add: vPortsOf_def)
next
  case (snoc t ts)
  obtain w1 pm1 where f: "fold (distributeVTrigger nu l r) ts (w0, pm0) = (w1, pm1)"
    by (cases "fold (distributeVTrigger nu l r) ts (w0, pm0)")
  have st: "distributeVTrigger nu l r t (w1, pm1) = (w, pm)"
    using snoc.prems(3) f by simp
  have d: "distinct (vPortsOf ts)" "portInput t \<notin> set (vPortsOf ts)"
    "portOutput t \<notin> set (vPortsOf ts)" "portInput t \<noteq> portOutput t"
    using snoc.prems(1) by (auto simp: vPortsOf_snoc)
  have b: "\<forall>t\<in>set ts. 0 \<le> vt_u t \<and> vt_u t \<le> 1" "0 \<le> vt_u t" "vt_u t \<le> 1"
    using snoc.prems(2) by auto
  note ih = snoc.IH[OF d(1) b(1) f]
  note S = distributeVTrigger_step[OF lr nu b(2,3) st]
  define ls where "ls = vTriggers (nodes w1 l)"
  define rs where "rs = vTriggers (nodes w1 r)"
  have hl: "hTriggers (nodes w l) = hTriggers (nodes w0 l)"
    and hr: "hTriggers (nodes w r) = hTriggers (nodes w0 r)"
    using S ih by simp_all
  have ml: "map vt_u ls = map (leftU nu) (filter (\<lambda>p. p \<le> nu) (map vt_u ts))"
    and mr: "map vt_u rs = map (rightU nu) (filter (\<lambda>p. nu \<le> p) (map vt_u ts))"
    and keep: "\<And>q. q \<notin> set (vPortsOf ts) \<Longrightarrow> pm1 q = pm0 q"
    and old: "\<And>k. k < length ts \<Longrightarrow> vEntryOk nu ts ls rs pm1 k"
    using ih unfolding ls_def rs_def by simp_all
  have ll: "length ls = length (filter (\<lambda>t. vt_u t \<le> nu) ts)"
    using map_length_eq[OF ml] by (simp add: filter_map comp_def)
  have lr': "length rs = length (filter (\<lambda>t. nu \<le> vt_u t) ts)"
    using map_length_eq[OF mr] by (simp add: filter_map comp_def)
  have oldports: "\<And>k. k < length ts \<Longrightarrow>
      portInput (ts ! k) \<noteq> portInput t \<and> portInput (ts ! k) \<noteq> portOutput t \<and>
      portOutput (ts ! k) \<noteq> portInput t \<and> portOutput (ts ! k) \<noteq> portOutput t"
    using vPortsOf_nth d(2,3) by metis
  consider (lt) "vt_u t < nu" | (gt) "nu < vt_u t" | (eq) "vt_u t = nu" by linarith
  then have rest: "map vt_u (vTriggers (nodes w l)) =
        map (leftU nu) (filter (\<lambda>p. p \<le> nu) (map vt_u (ts @ [t]))) \<and>
     map vt_u (vTriggers (nodes w r)) =
        map (rightU nu) (filter (\<lambda>p. nu \<le> p) (map vt_u (ts @ [t]))) \<and>
     (\<forall>q. q \<notin> set (vPortsOf (ts @ [t])) \<longrightarrow> pm q = pm0 q) \<and>
     (\<forall>k<length (ts @ [t]).
        vEntryOk nu (ts @ [t]) (vTriggers (nodes w l)) (vTriggers (nodes w r)) pm k)"
  proof cases
    case lt
    from S lt obtain nt where n: "vTriggers (nodes w l) = ls @ [nt]"
      "vTriggers (nodes w r) = rs" "vt_u nt = vt_u t / nu"
      "pm = pm1(portInput t \<mapsto> OnePort (portInput nt),
                portOutput t \<mapsto> OnePort (portOutput nt))"
      unfolding ls_def rs_def by blast
    have a1: "map vt_u (vTriggers (nodes w l)) =
        map (leftU nu) (filter (\<lambda>p. p \<le> nu) (map vt_u (ts @ [t])))"
      using lt n(1,3) ml by (simp add: leftU_def)
    have a2: "map vt_u (vTriggers (nodes w r)) =
        map (rightU nu) (filter (\<lambda>p. nu \<le> p) (map vt_u (ts @ [t])))"
      using lt n(2) mr by simp
    have a3: "\<forall>q. q \<notin> set (vPortsOf (ts @ [t])) \<longrightarrow> pm q = pm0 q"
      using keep n(4) by (simp add: vPortsOf_snoc)
    have new: "vEntryOk nu (ts @ [t]) (ls @ [nt]) rs pm (length ts)"
      unfolding n(4) by (rule vEntryOk_new_left[OF lt ll n(3) d(4)])
    have a4: "vEntryOk nu (ts @ [t]) (vTriggers (nodes w l)) (vTriggers (nodes w r)) pm k"
      if k: "k < length (ts @ [t])" for k
    proof (cases "k < length ts")
      case True
      have "vEntryOk nu (ts @ [t]) (ls @ [nt]) (rs @ []) pm k"
        using oldports[OF True] by (intro vEntryOk_extend[OF True old[OF True]]) (simp_all add: n(4))
      then show ?thesis by (simp add: n(1,2))
    next
      case False
      then have "k = length ts" using k by simp
      then show ?thesis using new by (simp add: n(1,2))
    qed
    show ?thesis using a1 a2 a3 a4 by blast
  next
    case gt
    from S gt obtain nt where n: "vTriggers (nodes w r) = rs @ [nt]"
      "vTriggers (nodes w l) = ls" "vt_u nt = (vt_u t - nu) / (1 - nu)"
      "pm = pm1(portInput t \<mapsto> OnePort (portInput nt),
                portOutput t \<mapsto> OnePort (portOutput nt))"
      unfolding ls_def rs_def by blast
    have a1: "map vt_u (vTriggers (nodes w l)) =
        map (leftU nu) (filter (\<lambda>p. p \<le> nu) (map vt_u (ts @ [t])))"
      using gt n(2) ml by simp
    have a2: "map vt_u (vTriggers (nodes w r)) =
        map (rightU nu) (filter (\<lambda>p. nu \<le> p) (map vt_u (ts @ [t])))"
      using gt n(1,3) mr by (simp add: rightU_def)
    have a3: "\<forall>q. q \<notin> set (vPortsOf (ts @ [t])) \<longrightarrow> pm q = pm0 q"
      using keep n(4) by (simp add: vPortsOf_snoc)
    have new: "vEntryOk nu (ts @ [t]) ls (rs @ [nt]) pm (length ts)"
      unfolding n(4) by (rule vEntryOk_new_right[OF gt lr' n(3) d(4)])
    have a4: "vEntryOk nu (ts @ [t]) (vTriggers (nodes w l)) (vTriggers (nodes w r)) pm k"
      if k: "k < length (ts @ [t])" for k
    proof (cases "k < length ts")
      case True
      have "vEntryOk nu (ts @ [t]) (ls @ []) (rs @ [nt]) pm k"
        using oldports[OF True] by (intro vEntryOk_extend[OF True old[OF True]]) (simp_all add: n(4))
      then show ?thesis by (simp add: n(1,2))
    next
      case False
      then have "k = length ts" using k by simp
      then show ?thesis using new by (simp add: n(1,2))
    qed
    show ?thesis using a1 a2 a3 a4 by blast
  next
    case eq
    from S eq obtain lt rt where n: "vTriggers (nodes w l) = ls @ [lt]"
      "vTriggers (nodes w r) = rs @ [rt]" "vt_u lt = 1" "vt_u rt = 0"
      "pm = pm1(portInput t \<mapsto> PortArray [portInput lt, portInput rt],
                portOutput t \<mapsto> PortArray [portOutput lt, portOutput rt])"
      unfolding ls_def rs_def by blast
    have a1: "map vt_u (vTriggers (nodes w l)) =
        map (leftU nu) (filter (\<lambda>p. p \<le> nu) (map vt_u (ts @ [t])))"
      using eq n(1,3) ml by (simp add: leftU_def)
    have a2: "map vt_u (vTriggers (nodes w r)) =
        map (rightU nu) (filter (\<lambda>p. nu \<le> p) (map vt_u (ts @ [t])))"
      using eq n(2,4) mr by (simp add: rightU_def)
    have a3: "\<forall>q. q \<notin> set (vPortsOf (ts @ [t])) \<longrightarrow> pm q = pm0 q"
      using keep n(5) by (simp add: vPortsOf_snoc)
    have new: "vEntryOk nu (ts @ [t]) (ls @ [lt]) (rs @ [rt]) pm (length ts)"
      unfolding n(5) by (rule vEntryOk_new_both[OF eq ll lr' n(3,4) d(4)])
    have a4: "vEntryOk nu (ts @ [t]) (vTriggers (nodes w l)) (vTriggers (nodes w r)) pm k"
      if k: "k < length (ts @ [t])" for k
    proof (cases "k < length ts")
      case True
      have "vEntryOk nu (ts @ [t]) (ls @ [lt]) (rs @ [rt]) pm k"
        using oldports[OF True] by (intro vEntryOk_extend[OF True old[OF True]]) (simp_all add: n(5))
      then show ?thesis by (simp add: n(1,2))
    next
      case False
      then have "k = length ts" using k by simp
      then show ?thesis using new by (simp add: n(1,2))
    qed
    show ?thesis using a1 a2 a3 a4 by blast
  qed
  show ?case using hl hr rest by (intro conjI; blast)
qed


lemma fold_distributeHTrigger_inv:
  assumes lr: "l \<noteq> r"
    and e0: "hTriggers (nodes w0 l) = []" "hTriggers (nodes w0 r) = []"
  shows "distinct (hPortsOf ts) \<Longrightarrow> (\<forall>t\<in>set ts. 0 \<le> ht_v t \<and> ht_v t \<le> 1) \<Longrightarrow>
     fold (distributeHTrigger l r) ts (w0, pm0) = (w, pm) \<Longrightarrow>
     vTriggers (nodes w l) = vTriggers (nodes w0 l) \<and>
     vTriggers (nodes w r) = vTriggers (nodes w0 r) \<and>
     map ht_v (hTriggers (nodes w l)) = map ht_v ts \<and>
     map ht_v (hTriggers (nodes w r)) = map ht_v ts \<and>
     (\<forall>q. q \<notin> set (hPortsOf ts) \<longrightarrow> pm q = pm0 q) \<and>
     (\<forall>k<length ts. hEntryOk ts (hTriggers (nodes w l)) (hTriggers (nodes w r)) pm k)"
proof (induction ts arbitrary: w pm rule: rev_induct)
  case Nil
  then show ?case using e0 by (simp add: hPortsOf_def)
next
  case (snoc t ts)
  obtain w1 pm1 where f: "fold (distributeHTrigger l r) ts (w0, pm0) = (w1, pm1)"
    by (cases "fold (distributeHTrigger l r) ts (w0, pm0)")
  have st: "distributeHTrigger l r t (w1, pm1) = (w, pm)"
    using snoc.prems(3) f by simp
  have d: "distinct (hPortsOf ts)" "portUp t \<notin> set (hPortsOf ts)"
    "portDown t \<notin> set (hPortsOf ts)" "portUp t \<noteq> portDown t"
    using snoc.prems(1) by (auto simp: hPortsOf_snoc)
  have b: "\<forall>t\<in>set ts. 0 \<le> ht_v t \<and> ht_v t \<le> 1" "0 \<le> ht_v t" "ht_v t \<le> 1"
    using snoc.prems(2) by auto
  note ih = snoc.IH[OF d(1) b(1) f]
  note S = distributeHTrigger_step[OF lr b(2,3) st]
  define ls where "ls = hTriggers (nodes w1 l)"
  define rs where "rs = hTriggers (nodes w1 r)"
  have vl: "vTriggers (nodes w l) = vTriggers (nodes w0 l)"
    and vr: "vTriggers (nodes w r) = vTriggers (nodes w0 r)"
    using S ih by simp_all
  have ml: "map ht_v ls = map ht_v ts" and mr: "map ht_v rs = map ht_v ts"
    and keep: "\<And>q. q \<notin> set (hPortsOf ts) \<Longrightarrow> pm1 q = pm0 q"
    and old: "\<And>k. k < length ts \<Longrightarrow> hEntryOk ts ls rs pm1 k"
    using ih unfolding ls_def rs_def by simp_all
  have ll: "length ls = length ts" using map_length_eq[OF ml] .
  have lr': "length rs = length ts" using map_length_eq[OF mr] .
  have oldports: "\<And>k. k < length ts \<Longrightarrow>
      portUp (ts ! k) \<noteq> portUp t \<and> portUp (ts ! k) \<noteq> portDown t \<and>
      portDown (ts ! k) \<noteq> portUp t \<and> portDown (ts ! k) \<noteq> portDown t"
    using hPortsOf_nth d(2,3) by metis
  from S obtain lt rt where n: "hTriggers (nodes w l) = ls @ [lt]"
    "hTriggers (nodes w r) = rs @ [rt]" "ht_v lt = ht_v t" "ht_v rt = ht_v t"
    "pm = pm1(portUp t \<mapsto> PortArray [portUp lt, portUp rt],
              portDown t \<mapsto> PortArray [portDown lt, portDown rt])"
    unfolding ls_def rs_def by blast
  have a1: "map ht_v (hTriggers (nodes w l)) = map ht_v (ts @ [t])"
    using n(1,3) ml by simp
  have a2: "map ht_v (hTriggers (nodes w r)) = map ht_v (ts @ [t])"
    using n(2,4) mr by simp
  have a3: "\<forall>q. q \<notin> set (hPortsOf (ts @ [t])) \<longrightarrow> pm q = pm0 q"
    using keep n(5) by (simp add: hPortsOf_snoc)
  have new: "hEntryOk (ts @ [t]) (ls @ [lt]) (rs @ [rt]) pm (length ts)"
    unfolding n(5) by (rule hEntryOk_new[OF ll lr' n(3,4) d(4)])
  have a4: "hEntryOk (ts @ [t]) (hTriggers (nodes w l)) (hTriggers (nodes w r)) pm k"
    if k: "k < length (ts @ [t])" for k
  proof (cases "k < length ts")
    case True
    have "hEntryOk (ts @ [t]) (ls @ [lt]) (rs @ [rt]) pm k"
      using oldports[OF True] by (intro hEntryOk_extend[OF True old[OF True]]) (simp_all add: n(5))
    then show ?thesis by (simp add: n(1,2))
  next
    case False
    then have "k = length ts" using k by simp
    then show ?thesis using new by (simp add: n(1,2))
  qed
  show ?case using vl vr a1 a2 a3 a4 by (intro conjI; blast)
qed

lemma vEntryOk_cong:
  assumes "k < length ts" "vEntryOk nu ts ls rs pm k"
    "\<And>q. q \<in> set (vPortsOf ts) \<Longrightarrow> pm' q = pm q"
  shows "vEntryOk nu ts ls rs pm' k"
  using vEntryOk_extend[OF assms(1,2), of pm' "[]" "[]" "[]"] assms(3) vPortsOf_nth[OF assms(1)]
  by simp

subsection \<open>Claim C7: distribution of the triggers of a split node\<close>

text \<open>
  C7. For every accepted split at \<open>u\<close> of a node with at least 2 samples, whose triggers
  sit at positions in \<open>[0, 1]\<close> and own pairwise distinct ports: the vertical triggers
  of the left node are, in order, the copies of the original ones at \<open>p \<le> u\<close>, at
  \<open>p / u\<close> when \<open>p < u\<close> and at 1 when \<open>p = u\<close>; those of the right node are the copies
  of the original ones at \<open>p \<ge> u\<close>, at \<open>(p - u) / (1 - u)\<close> when \<open>p > u\<close> and at 0
  when \<open>p = u\<close>. So a trigger with \<open>p < u\<close> appears only on the left, one with \<open>p > u\<close>
  only on the right, and one with \<open>p = u\<close> on both. The returned port map sends the
  two ports of an original vertical trigger to the ports of its only copy, or, when
  \<open>p = u\<close>, to the pair of the ports of its two copies. Every original horizontal
  trigger has one copy on each node with the same \<open>v\<close>, and its ports are mapped to
  the pairs of the ports of the two copies.
\<close>

theorem split_distributes_triggers:
  assumes len: "2 \<le> length (samples (nodes w a))"
    and acc: "2 / 100 < clamp uu 0 1" "clamp uu 0 1 < 98 / 100"
    and vrange: "\<forall>t\<in>set (vTriggers (nodes w a)). 0 \<le> vt_u t \<and> vt_u t \<le> 1"
    and hrange: "\<forall>t\<in>set (hTriggers (nodes w a)). 0 \<le> ht_v t \<and> ht_v t \<le> 1"
    and dist: "distinct (vPortsOf (vTriggers (nodes w a)) @ hPortsOf (hTriggers (nodes w a)))"
  shows "\<exists>res w'. splitAtU uu a w = SplitOk res w' \<and>
     map vt_u (vTriggers (nodes w' (leftNode res))) =
       map (leftU (clamp uu 0 1))
         (filter (\<lambda>p. p \<le> clamp uu 0 1) (map vt_u (vTriggers (nodes w a)))) \<and>
     map vt_u (vTriggers (nodes w' (rightNode res))) =
       map (rightU (clamp uu 0 1))
         (filter (\<lambda>p. clamp uu 0 1 \<le> p) (map vt_u (vTriggers (nodes w a)))) \<and>
     map ht_v (hTriggers (nodes w' (leftNode res))) = map ht_v (hTriggers (nodes w a)) \<and>
     map ht_v (hTriggers (nodes w' (rightNode res))) = map ht_v (hTriggers (nodes w a)) \<and>
     (\<forall>k<length (vTriggers (nodes w a)).
        vEntryOk (clamp uu 0 1) (vTriggers (nodes w a))
          (vTriggers (nodes w' (leftNode res))) (vTriggers (nodes w' (rightNode res)))
          (portMap res) k) \<and>
     (\<forall>k<length (hTriggers (nodes w a)).
        hEntryOk (hTriggers (nodes w a))
          (hTriggers (nodes w' (leftNode res))) (hTriggers (nodes w' (rightNode res)))
          (portMap res) k)"
proof -
  define nu where "nu = clamp uu 0 1"
  define l where "l = nextNode w"
  define r where "r = Suc (nextNode w)"
  define ts where "ts = vTriggers (nodes w a)"
  define hs where "hs = hTriggers (nodes w a)"
  obtain left right w3 pm1 w4 pm2 where
    f1: "fold (distributeVTrigger nu l r) ts
       (w\<lparr>nodes := (nodes w)(l := splitLeftNode (nodes w a) nu left,
                               r := splitRightNode (nodes w a) nu right),
          nextNode := Suc (Suc (nextNode w))\<rparr>, Map.empty) = (w3, pm1)"
    and f2: "fold (distributeHTrigger l r) hs (w3, pm1) = (w4, pm2)"
    and res: "splitAtU uu a w =
       SplitOk \<lparr>leftNode = l, rightNode = r, portMap = pm2, splitU = nu\<rparr> w4"
    using splitAtU_unfold[OF len acc] unfolding nu_def l_def r_def ts_def hs_def by blast
  define w0 where "w0 = w\<lparr>nodes := (nodes w)(l := splitLeftNode (nodes w a) nu left,
                               r := splitRightNode (nodes w a) nu right),
          nextNode := Suc (Suc (nextNode w))\<rparr>"
  define res0 where "res0 = \<lparr>leftNode = l, rightNode = r, portMap = pm2, splitU = nu\<rparr>"
  have sel: "leftNode res0 = l" "rightNode res0 = r" "portMap res0 = pm2"
    by (simp_all add: res0_def)
  have lr: "l \<noteq> r" by (simp add: l_def r_def)
  have nu: "0 < nu" "nu < 1" using acc by (simp_all add: nu_def)
  have e0: "vTriggers (nodes w0 l) = []" "vTriggers (nodes w0 r) = []"
    "hTriggers (nodes w0 l) = []" "hTriggers (nodes w0 r) = []"
    using lr by (simp_all add: w0_def splitLeftNode_def splitRightNode_def WaveformNode_new_def Let_def)
  have dv: "distinct (vPortsOf ts)" and dh: "distinct (hPortsOf hs)"
    and dj: "set (vPortsOf ts) \<inter> set (hPortsOf hs) = {}"
    using dist by (simp_all add: ts_def hs_def)
  have vb: "\<forall>t\<in>set ts. 0 \<le> vt_u t \<and> vt_u t \<le> 1" using vrange by (simp add: ts_def)
  have hb: "\<forall>t\<in>set hs. 0 \<le> ht_v t \<and> ht_v t \<le> 1" using hrange by (simp add: hs_def)
  note V = fold_distributeVTrigger_inv[OF lr nu e0(1,2) dv vb f1[folded w0_def]]
  have h3: "hTriggers (nodes w3 l) = []" "hTriggers (nodes w3 r) = []"
    using V e0(3,4) by simp_all
  note H = fold_distributeHTrigger_inv[OF lr h3 dh hb f2]
  have v4: "vTriggers (nodes w4 l) = vTriggers (nodes w3 l)"
    "vTriggers (nodes w4 r) = vTriggers (nodes w3 r)"
    using H by simp_all
  have c1: "splitAtU uu a w = SplitOk res0 w4" using res by (simp add: res0_def)
  have c2: "map vt_u (vTriggers (nodes w4 l)) =
       map (leftU nu) (filter (\<lambda>p. p \<le> nu) (map vt_u ts))"
    using V v4 by simp
  have c3: "map vt_u (vTriggers (nodes w4 r)) =
       map (rightU nu) (filter (\<lambda>p. nu \<le> p) (map vt_u ts))"
    using V v4 by simp
  have c4: "map ht_v (hTriggers (nodes w4 l)) = map ht_v hs" using H by simp
  have c5: "map ht_v (hTriggers (nodes w4 r)) = map ht_v hs" using H by simp
  have agree: "pm2 q = pm1 q" if "q \<in> set (vPortsOf ts)" for q
    using H that dj by blast
  have c6: "\<forall>k<length ts. vEntryOk nu ts (vTriggers (nodes w4 l)) (vTriggers (nodes w4 r)) pm2 k"
  proof (intro allI impI)
    fix k assume k: "k < length ts"
    have e: "vEntryOk nu ts (vTriggers (nodes w3 l)) (vTriggers (nodes w3 r)) pm1 k"
      using V k by simp
    show "vEntryOk nu ts (vTriggers (nodes w4 l)) (vTriggers (nodes w4 r)) pm2 k"
      unfolding v4 by (rule vEntryOk_cong[OF k e agree])
  qed
  have c7: "\<forall>k<length hs. hEntryOk hs (hTriggers (nodes w4 l)) (hTriggers (nodes w4 r)) pm2 k"
    using H by simp
  show ?thesis
    unfolding nu_def[symmetric] ts_def[symmetric] hs_def[symmetric]
    by (intro exI[of _ res0] exI[of _ w4] conjI; (unfold sel)?; fact)
qed

text \<open>
  The second node of the example split at a quarter, where its vertical trigger sits:
  the trigger is duplicated, at 1 on the left and at 0 on the right.
\<close>

theorem split_distributes_triggers_witness:
  "2 \<le> length (samples (nodes exampleWorld 1)) \<and>
   2 / 100 < clamp (1 / 4) 0 1 \<and> clamp (1 / 4) 0 1 < 98 / 100 \<and>
   map vt_u (vTriggers (nodes exampleWorld 1)) = [1 / 4] \<and>
   map ht_v (hTriggers (nodes exampleWorld 1)) = [1 / 2] \<and>
   distinct (vPortsOf (vTriggers (nodes exampleWorld 1)) @
             hPortsOf (hTriggers (nodes exampleWorld 1))) \<and>
   (\<exists>res w'. splitAtU (1 / 4) 1 exampleWorld = SplitOk res w' \<and>
      map vt_u (vTriggers (nodes w' (leftNode res))) = [1] \<and>
      map vt_u (vTriggers (nodes w' (rightNode res))) = [0] \<and>
      map ht_v (hTriggers (nodes w' (leftNode res))) = [1 / 2] \<and>
      map ht_v (hTriggers (nodes w' (rightNode res))) = [1 / 2] \<and>
      portMap res 2 = Some (PortArray
        [portInput (vTriggers (nodes w' (leftNode res)) ! 0),
         portInput (vTriggers (nodes w' (rightNode res)) ! 0)]) \<and>
      portMap res 3 = Some (PortArray
        [portOutput (vTriggers (nodes w' (leftNode res)) ! 0),
         portOutput (vTriggers (nodes w' (rightNode res)) ! 0)]) \<and>
      portMap res 4 = Some (PortArray
        [portUp (hTriggers (nodes w' (leftNode res)) ! 0),
         portUp (hTriggers (nodes w' (rightNode res)) ! 0)]) \<and>
      portMap res 5 = Some (PortArray
        [portDown (hTriggers (nodes w' (leftNode res)) ! 0),
         portDown (hTriggers (nodes w' (rightNode res)) ! 0)]))"
proof -
  define ts where "ts = vTriggers (nodes exampleWorld 1)"
  define hs where "hs = hTriggers (nodes exampleWorld 1)"
  have tv: "ts = [VTrigger_new (1 / 4) 2 3]" and hv: "hs = [HTrigger_new (1 / 2) 4 5]"
    by (simp_all add: ts_def hs_def exampleWorld_triggers)
  have c: "clamp (1 / 4) 0 1 = 1 / 4" by (simp add: clamp_def)
  have h: "2 \<le> length (samples (nodes exampleWorld 1))"
    "2 / 100 < clamp (1 / 4) 0 1" "clamp (1 / 4) 0 1 < 98 / 100"
    by (simp_all add: exampleWorld_node1 c)
  have m: "map vt_u ts = [1 / 4]" "map ht_v hs = [1 / 2]"
    by (simp_all add: tv hv VTrigger_new_def HTrigger_new_def clamp_def)
  have vr: "\<forall>t\<in>set ts. 0 \<le> vt_u t \<and> vt_u t \<le> 1"
    by (simp add: tv VTrigger_new_def clamp_def)
  have hr: "\<forall>t\<in>set hs. 0 \<le> ht_v t \<and> ht_v t \<le> 1"
    by (simp add: hv HTrigger_new_def clamp_def)
  have d: "distinct (vPortsOf ts @ hPortsOf hs)"
    by (simp add: tv hv vPortsOf_def hPortsOf_def VTrigger_new_def HTrigger_new_def)
  from split_distributes_triggers[OF h vr[unfolded ts_def] hr[unfolded hs_def] d[unfolded ts_def hs_def]]
  obtain res w' where
    ok: "splitAtU (1 / 4) 1 exampleWorld = SplitOk res w'" and
    vl: "map vt_u (vTriggers (nodes w' (leftNode res))) =
       map (leftU (clamp (1 / 4) 0 1)) (filter (\<lambda>p. p \<le> clamp (1 / 4) 0 1) (map vt_u ts))" and
    vrr: "map vt_u (vTriggers (nodes w' (rightNode res))) =
       map (rightU (clamp (1 / 4) 0 1)) (filter (\<lambda>p. clamp (1 / 4) 0 1 \<le> p) (map vt_u ts))" and
    hl: "map ht_v (hTriggers (nodes w' (leftNode res))) = map ht_v hs" and
    hrr: "map ht_v (hTriggers (nodes w' (rightNode res))) = map ht_v hs" and
    ve: "\<forall>k<length ts. vEntryOk (clamp (1 / 4) 0 1) ts
          (vTriggers (nodes w' (leftNode res))) (vTriggers (nodes w' (rightNode res)))
          (portMap res) k" and
    he: "\<forall>k<length hs. hEntryOk hs
          (hTriggers (nodes w' (leftNode res))) (hTriggers (nodes w' (rightNode res)))
          (portMap res) k"
    unfolding ts_def hs_def by blast
  have r1: "map vt_u (vTriggers (nodes w' (leftNode res))) = [1]"
    unfolding vl m c by (simp add: leftU_def)
  have r2: "map vt_u (vTriggers (nodes w' (rightNode res))) = [0]"
    unfolding vrr m c by (simp add: rightU_def)
  have r3: "map ht_v (hTriggers (nodes w' (leftNode res))) = [1 / 2]"
    unfolding hl m by simp
  have r4: "map ht_v (hTriggers (nodes w' (rightNode res))) = [1 / 2]"
    unfolding hrr m by simp
  have ve0: "vEntryOk (1 / 4) ts
          (vTriggers (nodes w' (leftNode res))) (vTriggers (nodes w' (rightNode res)))
          (portMap res) 0"
    using ve unfolding c by (simp add: tv)
  have he0: "hEntryOk hs
          (hTriggers (nodes w' (leftNode res))) (hTriggers (nodes w' (rightNode res)))
          (portMap res) 0"
    using he by (simp add: hv)
  have p2: "portMap res 2 = Some (PortArray
        [portInput (vTriggers (nodes w' (leftNode res)) ! 0),
         portInput (vTriggers (nodes w' (rightNode res)) ! 0)])"
    and p3: "portMap res 3 = Some (PortArray
        [portOutput (vTriggers (nodes w' (leftNode res)) ! 0),
         portOutput (vTriggers (nodes w' (rightNode res)) ! 0)])"
    using ve0 by (simp_all add: vEntryOk_def Let_def leftIndex_def rightIndex_def tv
        VTrigger_new_def clamp_def)
  have p4: "portMap res 4 = Some (PortArray
        [portUp (hTriggers (nodes w' (leftNode res)) ! 0),
         portUp (hTriggers (nodes w' (rightNode res)) ! 0)])"
    and p5: "portMap res 5 = Some (PortArray
        [portDown (hTriggers (nodes w' (leftNode res)) ! 0),
         portDown (hTriggers (nodes w' (rightNode res)) ! 0)])"
    using he0 by (simp_all add: hEntryOk_def hv HTrigger_new_def)
  have ex: "\<exists>res w'. splitAtU (1 / 4) 1 exampleWorld = SplitOk res w' \<and>
      map vt_u (vTriggers (nodes w' (leftNode res))) = [1] \<and>
      map vt_u (vTriggers (nodes w' (rightNode res))) = [0] \<and>
      map ht_v (hTriggers (nodes w' (leftNode res))) = [1 / 2] \<and>
      map ht_v (hTriggers (nodes w' (rightNode res))) = [1 / 2] \<and>
      portMap res 2 = Some (PortArray
        [portInput (vTriggers (nodes w' (leftNode res)) ! 0),
         portInput (vTriggers (nodes w' (rightNode res)) ! 0)]) \<and>
      portMap res 3 = Some (PortArray
        [portOutput (vTriggers (nodes w' (leftNode res)) ! 0),
         portOutput (vTriggers (nodes w' (rightNode res)) ! 0)]) \<and>
      portMap res 4 = Some (PortArray
        [portUp (hTriggers (nodes w' (leftNode res)) ! 0),
         portUp (hTriggers (nodes w' (rightNode res)) ! 0)]) \<and>
      portMap res 5 = Some (PortArray
        [portDown (hTriggers (nodes w' (leftNode res)) ! 0),
         portDown (hTriggers (nodes w' (rightNode res)) ! 0)])"
    by (intro exI[of _ res] exI[of _ w'] conjI; (rule ok r1 r2 r3 r4 p2 p3 p4 p5))
  note m' = m[unfolded ts_def hs_def]
  note d' = d[unfolded ts_def hs_def]
  show ?thesis by (intro conjI; (rule h m' d' ex))
qed

end
